theory Spec2Isabelle
  imports Main
begin

section \<open>Values, objects, draft states and scopes\<close>

text \<open>
  The embedding follows \<^verbatim>\<open>src/immer.ts\<close> (class \<^verbatim>\<open>Immer\<close>). JavaScript objects live in
  a heap indexed by addresses, so that identity (\<^verbatim>\<open>===\<close> on objects) is equality of
  addresses. Draft states and scopes are objects with identity too and get tables of
  their own. Numbers are integers (no NaN, no negative zero), property keys are values.

  What the embedding leaves out:
  \<^item> reading a property has no effect: a read through a draft, which the draft provider
    serves, is a read of the entries the draft object holds;
  \<^item> a revoked draft is a draft whose state is flagged \<open>revoked\<close>; that a revoked proxy
    throws on every access is not modelled;
  \<^item> a promise is an opaque value; what a deferred production does when the promise
    settles is given by \<open>produce_fulfilled\<close> and \<open>produce_rejected\<close>;
  \<^item> a function that runs out of stack on a cyclic heap is a function that runs out of
    fuel.
\<close>

type_synonym addr = nat

type_synonym sid = nat

type_synonym scid = nat

datatype val =
    VUndefined
  | VNull
  | VNothing
  | VBool bool
  | VNum int
  | VStr string
  | VFun nat
  | VPromise nat
  | VRef addr

datatype kind = KObject | KArray | KMap | KSet | KClass bool

text \<open>
  An object: its kind (plain object, array, Map, Set, or an instance of a class that is
  or is not marked \<^verbatim>\<open>DRAFTABLE\<close>), its own entries in order (key, value, enumerable),
  whether it is frozen, and its \<^verbatim>\<open>DRAFT_STATE\<close> slot (filled for drafts only). A draft
  has the kind of the value it stands for. A Set member \<open>m\<close> is the entry \<open>(m, m, True)\<close>.
\<close>

record jsobj =
  kind :: kind
  entries :: "(val \<times> val \<times> bool) list"
  frozen :: bool
  dstate :: "sid option"

record draft_state =
  base :: val
  copy :: val
  scope :: scid
  modified :: bool
  finalized :: bool
  draft :: val
  assigned :: "(val \<times> bool) list"
  isManual :: bool
  revoked :: bool

datatype patch_op = Add | Replace | Remove

record patch =
  op :: patch_op
  path :: "val list"
  pvalue :: val

text \<open>
  A patch listener as \<^verbatim>\<open>produce\<close> receives it: a value the caller passed, or the
  closure \<^verbatim>\<open>(p, ip) => {patches = p; inversePatches = ip}\<close> of \<^verbatim>\<open>produceWithPatches\<close>,
  which stores its arguments in the cell of the variables it captured.
\<close>

datatype listener = Passed val | Capture nat

record immer_scope =
  drafts :: "val list option"
  parent :: "scid option"
  patches :: "patch list option"
  inversePatches :: "patch list option"
  patchListener :: listener
  canAutoFreeze :: bool

text \<open>
  Hooks and user patch listeners are callbacks of the caller. Their invocations are
  recorded as events, in order; they are taken to observe only.
\<close>

datatype event =
    OnAssign sid val val
  | OnDelete sid val
  | OnCopy sid
  | PatchListenerCall nat "patch list" "patch list"

record world =
  heap :: "addr \<Rightarrow> jsobj"
  next_addr :: addr
  dstates :: "sid \<Rightarrow> draft_state"
  next_sid :: sid
  scopes :: "scid \<Rightarrow> immer_scope"
  next_scope :: scid
  current :: "scid option"
  cells :: "nat \<Rightarrow> (patch list option \<times> patch list option)"
  next_cell :: nat
  events :: "event list"

datatype error =
    InvalidRecipeArgument
  | InvalidPatchListenerArgument
  | PatchListenerNotAllowed
  | InvalidManualDraftArgument
  | DraftAlreadyFinalized
  | RecipeReturnedValueAndMutated
  | CircularReferenceDetected
  | TypeError
  | Thrown val

datatype 'a outcome = Ret 'a | Threw error

text \<open>The configuration of an \<^verbatim>\<open>Immer\<close> instance; a hook is registered or not.\<close>

record immer =
  useProxies :: bool
  autoFreeze :: bool
  onAssign :: bool
  onDelete :: bool
  onCopy :: bool

type_synonym jsfun = "val list \<Rightarrow> world \<Rightarrow> val outcome \<times> world"

text \<open>
  The collaborators that are not part of \<^verbatim>\<open>immer.ts\<close> and are taken as parameters: the
  behaviour of the caller's functions (\<open>VFun n\<close> is called through \<open>fns n\<close>), the patch
  engine (\<^verbatim>\<open>generatePatches\<close> returns the patches and inverse patches it pushes,
  \<^verbatim>\<open>applyPatches\<close> replays patches on a draft) and the fallback draft provider's
  \<^verbatim>\<open>willFinalizeES5\<close>.
\<close>

record collab =
  fns :: "nat \<Rightarrow> jsfun"
  generatePatches :: "sid \<Rightarrow> val list \<Rightarrow> world \<Rightarrow> patch list \<times> patch list"
  patches_applyPatches :: "val \<Rightarrow> patch list \<Rightarrow> world \<Rightarrow> val outcome \<times> world"
  willFinalizeES5 :: "scid \<Rightarrow> val \<Rightarrow> bool \<Rightarrow> world \<Rightarrow> world"

section \<open>Utilities of common.ts\<close>

text \<open>
  Modelled from the spec: the generic utilities of \<^verbatim>\<open>common.ts\<close> (classification of
  values, property access, shallow copy, freeze, iteration), which the spec treats as
  external collaborators.
\<close>

definition draftStateOf :: "val \<Rightarrow> world \<Rightarrow> sid option" where
  "draftStateOf v w = (case v of VRef a \<Rightarrow> dstate (heap w a) | _ \<Rightarrow> None)"

definition isDraft :: "val \<Rightarrow> world \<Rightarrow> bool" where
  "isDraft v w = (draftStateOf v w \<noteq> None)"

definition kindOf :: "val \<Rightarrow> world \<Rightarrow> kind option" where
  "kindOf v w = (case v of VRef a \<Rightarrow> Some (kind (heap w a)) | _ \<Rightarrow> None)"

definition isMap :: "val \<Rightarrow> world \<Rightarrow> bool" where
  "isMap v w = (kindOf v w = Some KMap)"

definition isSet :: "val \<Rightarrow> world \<Rightarrow> bool" where
  "isSet v w = (kindOf v w = Some KSet)"

definition isArray :: "val \<Rightarrow> world \<Rightarrow> bool" where
  "isArray v w = (kindOf v w = Some KArray)"

definition isPlainObject :: "val \<Rightarrow> world \<Rightarrow> bool" where
  "isPlainObject v w = (kindOf v w = Some KObject)"

definition isDraftable :: "val \<Rightarrow> world \<Rightarrow> bool" where
  "isDraftable v w =
     (isPlainObject v w \<or> isArray v w \<or> kindOf v w = Some (KClass True) \<or> isMap v w \<or> isSet v w)"

definition isFrozen :: "val \<Rightarrow> world \<Rightarrow> bool" where
  "isFrozen v w = (case v of VRef a \<Rightarrow> frozen (heap w a) | _ \<Rightarrow> True)"

definition truthy :: "val \<Rightarrow> bool" where
  "truthy v = (case v of VUndefined \<Rightarrow> False | VNull \<Rightarrow> False | VBool b \<Rightarrow> b
     | VNum n \<Rightarrow> n \<noteq> 0 | VStr s \<Rightarrow> s \<noteq> [] | _ \<Rightarrow> True)"

definition isFunction :: "val \<Rightarrow> bool" where
  "isFunction v = (case v of VFun n \<Rightarrow> True | _ \<Rightarrow> False)"

definition isPromise :: "val \<Rightarrow> bool" where
  "isPromise v = (case v of VPromise p \<Rightarrow> True | _ \<Rightarrow> False)"

fun lookupEntry :: "(val \<times> val \<times> bool) list \<Rightarrow> val \<Rightarrow> (val \<times> bool) option" where
  "lookupEntry [] k = None"
| "lookupEntry ((k', v, e) # es) k = (if k' = k then Some (v, e) else lookupEntry es k)"

definition entriesOf :: "val \<Rightarrow> world \<Rightarrow> (val \<times> val \<times> bool) list" where
  "entriesOf v w = (case v of VRef a \<Rightarrow> entries (heap w a) | _ \<Rightarrow> [])"

definition ownKeys :: "val \<Rightarrow> world \<Rightarrow> val list" where
  "ownKeys v w = map fst (entriesOf v w)"

definition has :: "val \<Rightarrow> val \<Rightarrow> world \<Rightarrow> bool" where
  "has thing prop w = (lookupEntry (entriesOf thing w) prop \<noteq> None)"

definition get :: "val \<Rightarrow> val \<Rightarrow> world \<Rightarrow> val" where
  "get thing prop w = (case lookupEntry (entriesOf thing w) prop of Some (v, e) \<Rightarrow> v | None \<Rightarrow> VUndefined)"

definition isEnumerable :: "val \<Rightarrow> val \<Rightarrow> world \<Rightarrow> bool" where
  "isEnumerable thing prop w = (case lookupEntry (entriesOf thing w) prop of Some (v, e) \<Rightarrow> e | None \<Rightarrow> False)"

definition hasAssigned :: "(val \<times> bool) list \<Rightarrow> val \<Rightarrow> bool" where
  "hasAssigned as prop = (prop \<in> fst ` set as)"

definition sameValue :: "val \<Rightarrow> val \<Rightarrow> bool" where
  "sameValue x y = (x = y)"

definition updObj :: "addr \<Rightarrow> (jsobj \<Rightarrow> jsobj) \<Rightarrow> world \<Rightarrow> world" where
  "updObj a f w = w\<lparr>heap := (heap w)(a := f (heap w a))\<rparr>"

definition updState :: "sid \<Rightarrow> (draft_state \<Rightarrow> draft_state) \<Rightarrow> world \<Rightarrow> world" where
  "updState s f w = w\<lparr>dstates := (dstates w)(s := f (dstates w s))\<rparr>"

definition updScope :: "scid \<Rightarrow> (immer_scope \<Rightarrow> immer_scope) \<Rightarrow> world \<Rightarrow> world" where
  "updScope sc f w = w\<lparr>scopes := (scopes w)(sc := f (scopes w sc))\<rparr>"

definition emit :: "event \<Rightarrow> world \<Rightarrow> world" where
  "emit e w = w\<lparr>events := events w @ [e]\<rparr>"

text \<open>
  \<^verbatim>\<open>freeze(obj, deep)\<close> does nothing on a value that is not draftable, is a draft or is
  frozen already; otherwise it freezes the object and, when deep, its children. Every
  nested call freezes an object that was not frozen, so in a world whose objects all
  lie below \<open>next_addr\<close> the nesting is bounded by \<open>next_addr\<close>, and \<open>freeze\<close> starts
  with that much fuel.
\<close>

fun freezeFuel :: "nat \<Rightarrow> val \<Rightarrow> bool \<Rightarrow> world \<Rightarrow> world" where
  "freezeFuel 0 v deep w = w"
| "freezeFuel (Suc n) v deep w =
     (case v of
        VRef a \<Rightarrow>
          if \<not> isDraftable v w \<or> isDraft v w \<or> isFrozen v w then w
          else
            let w1 = updObj a (\<lambda>ob. ob\<lparr>frozen := True\<rparr>) w
            in if deep then fold (\<lambda>c w'. freezeFuel n c True w') (map (\<lambda>(k, c, e). c) (entries (heap w a))) w1
               else w1
      | _ \<Rightarrow> w)"

definition freeze :: "val \<Rightarrow> bool \<Rightarrow> world \<Rightarrow> world" where
  "freeze v deep w = freezeFuel (Suc (next_addr w)) v deep w"

text \<open>\<^verbatim>\<open>shallowCopy\<close>: a newly allocated, unfrozen object with the entries of the original.\<close>

definition shallowCopy :: "val \<Rightarrow> world \<Rightarrow> val \<times> world" where
  "shallowCopy v w =
     (case v of
        VRef a \<Rightarrow>
          (VRef (next_addr w),
           w\<lparr>heap := (heap w)(next_addr w := (heap w a)\<lparr>frozen := False, dstate := None\<rparr>),
             next_addr := Suc (next_addr w)\<rparr>)
      | _ \<Rightarrow> (v, w))"

section \<open>Scopes (scope.ts)\<close>

text \<open>
  Modelled from the spec: the scope manager of \<^verbatim>\<open>scope.ts\<close>. \<open>enter\<close> pushes a new scope
  and makes it current, \<open>leave\<close> pops it when it is the current one, \<open>revoke\<close> pops it and
  discards all drafts created in it, \<open>usePatches\<close> allocates the patch lists when a
  listener was given.
\<close>

definition enter :: "world \<Rightarrow> scid \<times> world" where
  "enter w =
     (next_scope w,
      w\<lparr>scopes := (scopes w)(next_scope w :=
           \<lparr>drafts = Some [], parent = current w, patches = None, inversePatches = None,
            patchListener = Passed VUndefined, canAutoFreeze = True\<rparr>),
        next_scope := Suc (next_scope w),
        current := Some (next_scope w)\<rparr>)"

definition leave :: "scid \<Rightarrow> world \<Rightarrow> world" where
  "leave sc w = (if current w = Some sc then w\<lparr>current := parent (scopes w sc)\<rparr> else w)"

definition revokeDraft :: "val \<Rightarrow> world \<Rightarrow> world" where
  "revokeDraft d w =
     (case draftStateOf d w of Some s \<Rightarrow> updState s (\<lambda>st. st\<lparr>revoked := True\<rparr>) w | None \<Rightarrow> w)"

definition revoke :: "scid \<Rightarrow> world \<Rightarrow> world" where
  "revoke sc w =
     (let w1 = leave sc w;
          w2 = fold revokeDraft (case drafts (scopes w1 sc) of Some ds \<Rightarrow> ds | None \<Rightarrow> []) w1
      in updScope sc (\<lambda>s. s\<lparr>drafts := None\<rparr>) w2)"

definition listenerTruthy :: "listener \<Rightarrow> bool" where
  "listenerTruthy l = (case l of Passed v \<Rightarrow> truthy v | Capture c \<Rightarrow> True)"

definition listenerIsFunction :: "listener \<Rightarrow> bool" where
  "listenerIsFunction l = (case l of Passed v \<Rightarrow> isFunction v | Capture c \<Rightarrow> True)"

definition usePatches :: "scid \<Rightarrow> listener \<Rightarrow> world \<Rightarrow> world" where
  "usePatches sc l w =
     (if listenerTruthy l
      then updScope sc (\<lambda>s. s\<lparr>patches := Some [], inversePatches := Some [], patchListener := l\<rparr>) w
      else w)"

section \<open>The finalizer (immer.ts)\<close>

text \<open>\<^verbatim>\<open>maybeFreeze(value, deep = false)\<close>, lines 444--448.\<close>

definition maybeFreeze :: "immer \<Rightarrow> val \<Rightarrow> bool \<Rightarrow> world \<Rightarrow> world" where
  "maybeFreeze I v deep w = (if autoFreeze I \<and> \<not> isDraft v w then freeze v deep w else w)"

text \<open>
  \<^verbatim>\<open>replace(parent, prop, value)\<close>, lines 451--468. An assignment keeps the attributes
  of a property that exists and adds an enumerable one otherwise; \<^verbatim>\<open>defineProperty\<close>
  adds a property that is not enumerable. Mutating a frozen object, or a value that is
  not an object, is a \<open>TypeError\<close> (the module is strict code; a frozen collection's
  mutators throw).
\<close>

fun setEntry :: "val \<Rightarrow> val \<Rightarrow> bool \<Rightarrow> (val \<times> val \<times> bool) list \<Rightarrow> (val \<times> val \<times> bool) list" where
  "setEntry k v e [] = [(k, v, e)]"
| "setEntry k v e ((k', v', e') # es) =
     (if k' = k then (k', v, e') # es else (k', v', e') # setEntry k v e es)"

definition setDelete :: "val \<Rightarrow> (val \<times> val \<times> bool) list \<Rightarrow> (val \<times> val \<times> bool) list" where
  "setDelete m es = filter (\<lambda>(k, v, e). k \<noteq> m) es"

definition setAdd :: "val \<Rightarrow> (val \<times> val \<times> bool) list \<Rightarrow> (val \<times> val \<times> bool) list" where
  "setAdd m es = (if lookupEntry es m = None then es @ [(m, m, True)] else es)"

definition replace :: "val \<Rightarrow> val \<Rightarrow> val \<Rightarrow> world \<Rightarrow> unit outcome \<times> world" where
  "replace par prop v w =
     (case par of
        VRef a \<Rightarrow>
          if isFrozen par w then (Threw TypeError, w)
          else if isMap par w then
            (Ret (), updObj a (\<lambda>ob. ob\<lparr>entries := setEntry prop v True (entries ob)\<rparr>) w)
          else if isSet par w then
            (Ret (), updObj a (\<lambda>ob. ob\<lparr>entries := setAdd v (setDelete prop (entries ob))\<rparr>) w)
          else if isArray par w \<or> isEnumerable par prop w then
            (Ret (), updObj a (\<lambda>ob. ob\<lparr>entries := setEntry prop v True (entries ob)\<rparr>) w)
          else
            (Ret (), updObj a (\<lambda>ob. ob\<lparr>entries := setEntry prop v False (entries ob)\<rparr>) w)
      | _ \<Rightarrow> (Threw TypeError, w))"

text \<open>\<^verbatim>\<open>value[DRAFT_STATE]\<close>: reading a property of undefined or null throws.\<close>

definition readDraftState :: "val \<Rightarrow> world \<Rightarrow> sid option outcome" where
  "readDraftState v w =
     (case v of VUndefined \<Rightarrow> Threw TypeError | VNull \<Rightarrow> Threw TypeError | _ \<Rightarrow> Ret (draftStateOf v w))"

text \<open>The hook calls of \<^verbatim>\<open>finalize\<close>, lines 343--360.\<close>

definition onDeleteHooks :: "immer \<Rightarrow> sid \<Rightarrow> world \<Rightarrow> world" where
  "onDeleteHooks I s w =
     (if onDelete I \<and> \<not> isSet (base (dstates w s)) w then
        if useProxies I then
          fold (\<lambda>(prop, present) w'. if \<not> present then emit (OnDelete s prop) w' else w')
            (assigned (dstates w s)) w
        else
          fold (\<lambda>prop w'. if \<not> has (copy (dstates w s)) prop w then emit (OnDelete s prop) w' else w')
            (ownKeys (base (dstates w s)) w) w
      else w)"

definition onCopyHook :: "immer \<Rightarrow> sid \<Rightarrow> world \<Rightarrow> world" where
  "onCopyHook I s w = (if onCopy I then emit (OnCopy s) w else w)"

text \<open>Lines 364--366 and 368--370 of \<^verbatim>\<open>finalize\<close>.\<close>

definition autoFreezeCopy :: "immer \<Rightarrow> sid \<Rightarrow> scid \<Rightarrow> world \<Rightarrow> world" where
  "autoFreezeCopy I s sc w =
     (if autoFreeze I \<and> canAutoFreeze (scopes w sc) then freeze (copy (dstates w s)) False w else w)"

definition recordPatches :: "collab \<Rightarrow> sid \<Rightarrow> val list option \<Rightarrow> scid \<Rightarrow> world \<Rightarrow> world" where
  "recordPatches C s pth sc w =
     (case pth of
        None \<Rightarrow> w
      | Some p \<Rightarrow>
          (case patches (scopes w sc) of
             None \<Rightarrow> w
           | Some ps \<Rightarrow>
               (case generatePatches C s p w of
                  (fwd, bwd) \<Rightarrow>
                    updScope sc (\<lambda>x. x\<lparr>patches := Some (ps @ fwd),
                      inversePatches := map_option (\<lambda>ips. ips @ bwd) (inversePatches x)\<rparr>) w)))"

text \<open>Line 436--438 of \<^verbatim>\<open>finalizeProperty\<close>.\<close>

definition onAssignHook :: "immer \<Rightarrow> sid option \<Rightarrow> bool \<Rightarrow> bool \<Rightarrow> val \<Rightarrow> val \<Rightarrow> world \<Rightarrow> world" where
  "onAssignHook I st isDraftProp isSetMember prop v w =
     (case st of
        Some s \<Rightarrow> if isDraftProp \<and> onAssign I \<and> \<not> isSetMember then emit (OnAssign s prop v) w else w
      | None \<Rightarrow> w)"

text \<open>Lines 406--412: the path under which a child draft records its patches.\<close>

definition childPath :: "sid option \<Rightarrow> val list option \<Rightarrow> bool \<Rightarrow> bool \<Rightarrow> bool \<Rightarrow> val \<Rightarrow> world \<Rightarrow> val list option" where
  "childPath st rootPath isDraftProp needPatches isSetMember prop w =
     (case (st, rootPath) of
        (Some s, Some rp) \<Rightarrow>
          if isDraftProp \<and> needPatches \<and> \<not> isSetMember \<and> \<not> hasAssigned (assigned (dstates w s)) prop
          then Some (rp @ [prop]) else None
      | _ \<Rightarrow> None)"

text \<open>Lines 387--392 of \<^verbatim>\<open>finalizeTree\<close>: the fallback provider's final copy, and the root.\<close>

definition prepareRoot :: "immer \<Rightarrow> val \<Rightarrow> sid option \<Rightarrow> world \<Rightarrow> val \<times> world" where
  "prepareRoot I root st w =
     (case st of
        None \<Rightarrow> (root, w)
      | Some s \<Rightarrow>
          let w1 = (if \<not> useProxies I \<and> \<not> isMap root w \<and> \<not> isSet root w
                    then (case shallowCopy (draft (dstates w s)) w of
                            (c, w') \<Rightarrow> updState s (\<lambda>x. x\<lparr>copy := c\<rparr>) w')
                    else w)
          in (copy (dstates w1 s), w1))"

text \<open>
  \<^verbatim>\<open>finalize\<close> (lines 324--373), \<^verbatim>\<open>finalizeTree\<close> (lines 379--443) and its closure
  \<^verbatim>\<open>finalizeProperty\<close> (lines 396--439) call each other, following the heap, which may
  be cyclic. Each body is written first with the functions it calls as arguments; the
  variables \<^verbatim>\<open>finalizeProperty\<close> captures (the root's draft state, the root, the root
  path, \<^verbatim>\<open>needPatches\<close>, the scope) are arguments too. \<^verbatim>\<open>each(obj, iter)\<close> takes the
  keys of the object first and reads each value when it gets to it. A result is
  \<open>None\<close> when the recursion runs out of fuel.
\<close>

type_synonym 'a res = "('a outcome \<times> world) option"

text \<open>
  Modelled from the spec: \<^verbatim>\<open>each(obj, iter)\<close> of \<^verbatim>\<open>common.ts\<close>, the walk over a node's
  children, for each (key, value) pair; \<open>ks\<close> are the keys still to visit.
\<close>

primrec each_body :: "(val \<Rightarrow> val \<Rightarrow> val \<Rightarrow> world \<Rightarrow> unit res) \<Rightarrow> val list \<Rightarrow> val \<Rightarrow> world \<Rightarrow> unit res" where
  "each_body iter [] ob w = Some (Ret (), w)"
| "each_body iter (k # ks) ob w =
     (case iter k (get ob k w) ob w of
        None \<Rightarrow> None
      | Some (Threw e, w1) \<Rightarrow> Some (Threw e, w1)
      | Some (Ret u, w1) \<Rightarrow> each_body iter ks ob w1)"

definition finalize_body ::
  "(val \<Rightarrow> val list option \<Rightarrow> scid \<Rightarrow> world \<Rightarrow> val res)
   \<Rightarrow> collab \<Rightarrow> immer \<Rightarrow> val \<Rightarrow> val list option \<Rightarrow> scid \<Rightarrow> world \<Rightarrow> val res" where
  "finalize_body finalizeTree_rec C I d pth sc w =
     (case readDraftState d w of
        Threw e \<Rightarrow> Some (Threw e, w)
      | Ret None \<Rightarrow>
          if isFrozen d w then Some (Ret d, w) else finalizeTree_rec d None sc w
      | Ret (Some s) \<Rightarrow>
          if scope (dstates w s) \<noteq> sc then Some (Ret d, w)
          else if \<not> modified (dstates w s) then
            Some (Ret (base (dstates w s)), maybeFreeze I (base (dstates w s)) True w)
          else if \<not> finalized (dstates w s) then
            (case finalizeTree_rec (draft (dstates w s)) pth sc (updState s (\<lambda>x. x\<lparr>finalized := True\<rparr>) w) of
               None \<Rightarrow> None
             | Some (Threw e, w1) \<Rightarrow> Some (Threw e, w1)
             | Some (Ret r, w1) \<Rightarrow>
                 (let w2 = onDeleteHooks I s w1;
                      w3 = onCopyHook I s w2;
                      w4 = autoFreezeCopy I s sc w3;
                      w5 = recordPatches C s pth sc w4
                  in Some (Ret (copy (dstates w5 s)), w5)))
          else Some (Ret (copy (dstates w s)), w))"

definition finalizeTree_body ::
  "(sid option \<Rightarrow> val \<Rightarrow> val list option \<Rightarrow> bool \<Rightarrow> scid \<Rightarrow> val \<Rightarrow> val \<Rightarrow> val \<Rightarrow> world \<Rightarrow> unit res)
   \<Rightarrow> immer \<Rightarrow> val \<Rightarrow> val list option \<Rightarrow> scid \<Rightarrow> world \<Rightarrow> val res" where
  "finalizeTree_body finalizeProperty_rec I root rootPath sc w =
     (case readDraftState root w of
        Threw e \<Rightarrow> Some (Threw e, w)
      | Ret st \<Rightarrow>
          (case prepareRoot I root st w of
             (root', w1) \<Rightarrow>
               (case each_body
                       (finalizeProperty_rec st root' rootPath
                          (rootPath \<noteq> None \<and> patches (scopes w1 sc) \<noteq> None) sc)
                       (ownKeys root' w1) root' w1 of
                  None \<Rightarrow> None
                | Some (Threw e, w2) \<Rightarrow> Some (Threw e, w2)
                | Some (Ret u, w2) \<Rightarrow> Some (Ret root', w2))))"

definition finalizeProperty_body ::
  "(val \<Rightarrow> val list option \<Rightarrow> scid \<Rightarrow> world \<Rightarrow> val res)
   \<Rightarrow> (val \<Rightarrow> val \<Rightarrow> val \<Rightarrow> world \<Rightarrow> unit res)
   \<Rightarrow> immer \<Rightarrow> sid option \<Rightarrow> val \<Rightarrow> val list option \<Rightarrow> bool \<Rightarrow> scid
   \<Rightarrow> val \<Rightarrow> val \<Rightarrow> val \<Rightarrow> world \<Rightarrow> unit res" where
  "finalizeProperty_body finalize_rec finalizeProperty_rec I st root rootPath needPatches sc prop v par w =
     (if v = par then Some (Threw CircularReferenceDetected, w)
      else
        let isDraftProp = (st \<noteq> None \<and> par = root);
            isSetMember = isSet par w
        in
          if isDraft v w then
            (case finalize_rec v (childPath st rootPath isDraftProp needPatches isSetMember prop w) sc w of
               None \<Rightarrow> None
             | Some (Threw e, w1) \<Rightarrow> Some (Threw e, w1)
             | Some (Ret v', w1) \<Rightarrow>
                 (case replace par prop v' w1 of
                    (Threw e, w2) \<Rightarrow> Some (Threw e, w2)
                  | (Ret u, w2) \<Rightarrow>
                      (let w3 = (if isDraft v' w2 then updScope sc (\<lambda>x. x\<lparr>canAutoFreeze := False\<rparr>) w2 else w2)
                       in Some (Ret (), onAssignHook I st isDraftProp isSetMember prop v' w3))))
          else if isDraftProp \<and> sameValue v (get (case st of Some s \<Rightarrow> base (dstates w s) | None \<Rightarrow> VUndefined) prop w)
          then Some (Ret (), w)
          else if isDraftable v w \<and> \<not> isFrozen v w then
            (case each_body finalizeProperty_rec (ownKeys v w) v w of
               None \<Rightarrow> None
             | Some (Threw e, w1) \<Rightarrow> Some (Threw e, w1)
             | Some (Ret u, w1) \<Rightarrow>
                 Some (Ret (), onAssignHook I st isDraftProp isSetMember prop v (maybeFreeze I v False w1)))
          else Some (Ret (), onAssignHook I st isDraftProp isSetMember prop v w))"

text \<open>
  The knot. \<^verbatim>\<open>finalizeProperty\<close> with fuel \<open>Suc n\<close> runs its body, its nested walks with
  fuel \<open>n\<close>; \<^verbatim>\<open>finalize\<close> with fuel \<open>Suc n\<close> runs its body, with \<^verbatim>\<open>finalizeTree\<close> and the
  drafts below it on fuel \<open>n\<close>.
\<close>

primrec finalizeProperty ::
  "(val \<Rightarrow> val list option \<Rightarrow> scid \<Rightarrow> world \<Rightarrow> val res) \<Rightarrow> immer \<Rightarrow> nat
   \<Rightarrow> sid option \<Rightarrow> val \<Rightarrow> val list option \<Rightarrow> bool \<Rightarrow> scid \<Rightarrow> val \<Rightarrow> val \<Rightarrow> val \<Rightarrow> world \<Rightarrow> unit res" where
  "finalizeProperty finalize_rec I 0 = (\<lambda>st root rootPath needPatches sc prop v par w. None)"
| "finalizeProperty finalize_rec I (Suc n) = (\<lambda>st root rootPath needPatches sc prop v par w.
     finalizeProperty_body finalize_rec
       (finalizeProperty finalize_rec I n st root rootPath needPatches sc)
       I st root rootPath needPatches sc prop v par w)"

primrec finalize :: "collab \<Rightarrow> immer \<Rightarrow> nat \<Rightarrow> val \<Rightarrow> val list option \<Rightarrow> scid \<Rightarrow> world \<Rightarrow> val res" where
  "finalize C I 0 = (\<lambda>d pth sc w. None)"
| "finalize C I (Suc n) = (\<lambda>d pth sc w.
     finalize_body (finalizeTree_body (finalizeProperty (finalize C I n) I n) I) C I d pth sc w)"

definition finalizeTree :: "collab \<Rightarrow> immer \<Rightarrow> nat \<Rightarrow> val \<Rightarrow> val list option \<Rightarrow> scid \<Rightarrow> world \<Rightarrow> val res" where
  "finalizeTree C I n = finalizeTree_body (finalizeProperty (finalize C I n) I n) I"

section \<open>The production API (immer.ts)\<close>

text \<open>
  Modelled from the spec: the draft provider's \<^verbatim>\<open>createProxy\<close>, \<^verbatim>\<open>createES5Proxy\<close>,
  \<^verbatim>\<open>proxyMap\<close> and \<^verbatim>\<open>proxySet\<close> (proxy.ts, es5.ts, map.ts, set.ts). Each makes a new draft
  for the object at \<open>a\<close> with a fresh draft state: no copy, not modified, not
  finalized, owned by the scope \<open>sc\<close>.
\<close>

definition createDraftFor :: "addr \<Rightarrow> scid \<Rightarrow> world \<Rightarrow> val \<times> world" where
  "createDraftFor a sc w =
     (VRef (next_addr w),
      w\<lparr>heap := (heap w)(next_addr w :=
           \<lparr>kind = kind (heap w a), entries = entries (heap w a), frozen = False, dstate = Some (next_sid w)\<rparr>),
        next_addr := Suc (next_addr w),
        dstates := (dstates w)(next_sid w :=
           \<lparr>base = VRef a, copy = VUndefined, scope = sc, modified = False, finalized = False,
            draft = VRef (next_addr w), assigned = [], isManual = False, revoked = False\<rparr>),
        next_sid := Suc (next_sid w)\<rparr>)"

text \<open>\<^verbatim>\<open>createProxy(value, parent)\<close>, lines 284--305.\<close>

definition createProxy :: "immer \<Rightarrow> val \<Rightarrow> sid option \<Rightarrow> world \<Rightarrow> val outcome \<times> world" where
  "createProxy I v par w =
     (case v of
        VRef a \<Rightarrow>
          if isPlainObject v w \<or> isArray v w \<or> kindOf v w = Some (KClass True) \<or> isMap v w \<or> isSet v w then
            (case (case par of Some ps \<Rightarrow> Some (scope (dstates w ps)) | None \<Rightarrow> current w) of
               None \<Rightarrow> (Threw TypeError, w)
             | Some sc \<Rightarrow>
                 (case createDraftFor a sc w of
                    (d, w1) \<Rightarrow>
                      (case drafts (scopes w1 sc) of
                         None \<Rightarrow> (Threw TypeError, w1)
                       | Some ds \<Rightarrow> (Ret d, updScope sc (\<lambda>x. x\<lparr>drafts := Some (ds @ [d])\<rparr>) w1))))
          else (Ret v, w)
      | _ \<Rightarrow> (Ret v, w))"

text \<open>\<^verbatim>\<open>willFinalize\<close>, lines 307--309.\<close>

definition willFinalize :: "collab \<Rightarrow> immer \<Rightarrow> scid \<Rightarrow> val \<Rightarrow> bool \<Rightarrow> world \<Rightarrow> world" where
  "willFinalize C I sc thing isReplaced w =
     (if \<not> useProxies I then willFinalizeES5 C sc thing isReplaced w else w)"

text \<open>\<^verbatim>\<open>scope.drafts![0]\<close>: a revoked scope has no list of drafts.\<close>

definition baseDraftOf :: "scid \<Rightarrow> world \<Rightarrow> val outcome" where
  "baseDraftOf sc w =
     (case drafts (scopes w sc) of
        None \<Rightarrow> Threw TypeError
      | Some [] \<Rightarrow> Ret VUndefined
      | Some (d # ds) \<Rightarrow> Ret d)"

text \<open>Calling the patch listener of a scope (line 279).\<close>

definition callPatchListener :: "listener \<Rightarrow> patch list \<Rightarrow> patch list \<Rightarrow> world \<Rightarrow> unit outcome \<times> world" where
  "callPatchListener l ps ips w =
     (case l of
        Capture c \<Rightarrow> (Ret (), w\<lparr>cells := (cells w)(c := (Some ps, Some ips))\<rparr>)
      | Passed (VFun k) \<Rightarrow> (Ret (), emit (PatchListenerCall k ps ips) w)
      | Passed _ \<Rightarrow> (Threw TypeError, w))"

text \<open>Lines 261--272 of \<^verbatim>\<open>processResult\<close>: the patches of a replaced root.\<close>

definition pushReplacePatches :: "scid \<Rightarrow> val \<Rightarrow> val \<Rightarrow> world \<Rightarrow> world" where
  "pushReplacePatches sc result original w =
     (case patches (scopes w sc) of
        None \<Rightarrow> w
      | Some ps \<Rightarrow>
          updScope sc (\<lambda>x. x\<lparr>patches := Some (ps @ [\<lparr>op = Replace, path = [], pvalue = result\<rparr>]),
            inversePatches := map_option (\<lambda>ips. ips @ [\<lparr>op = Replace, path = [], pvalue = original\<rparr>])
              (inversePatches x)\<rparr>) w)"

text \<open>Lines 277--281 of \<^verbatim>\<open>processResult\<close>.\<close>

definition finishResult :: "val \<Rightarrow> scid \<Rightarrow> world \<Rightarrow> val outcome \<times> world" where
  "finishResult result sc w =
     (let w1 = revoke sc w in
      case patches (scopes w1 sc) of
        None \<Rightarrow> (Ret (if result \<noteq> VNothing then result else VUndefined), w1)
      | Some ps \<Rightarrow>
          (case callPatchListener (patchListener (scopes w1 sc)) ps
                  (case inversePatches (scopes w1 sc) of Some ips \<Rightarrow> ips | None \<Rightarrow> []) w1 of
             (Threw e, w2) \<Rightarrow> (Threw e, w2)
           | (Ret u, w2) \<Rightarrow> (Ret (if result \<noteq> VNothing then result else VUndefined), w2)))"

text \<open>\<^verbatim>\<open>processResult(result, scope)\<close>, lines 247--282.\<close>

definition processResult :: "collab \<Rightarrow> immer \<Rightarrow> nat \<Rightarrow> val \<Rightarrow> scid \<Rightarrow> world \<Rightarrow> val res" where
  "processResult C I n result sc w =
     (case baseDraftOf sc w of
        Threw e \<Rightarrow> Some (Threw e, w)
      | Ret baseDraft \<Rightarrow>
          let isReplaced = (result \<noteq> VUndefined \<and> result \<noteq> baseDraft);
              w1 = willFinalize C I sc result isReplaced w
          in
            if isReplaced then
              (case readDraftState baseDraft w1 of
                 Threw e \<Rightarrow> Some (Threw e, w1)
               | Ret None \<Rightarrow> Some (Threw TypeError, w1)
               | Ret (Some s) \<Rightarrow>
                   if modified (dstates w1 s) then
                     Some (Threw RecipeReturnedValueAndMutated, revoke sc w1)
                   else
                     (case (if isDraftable result w1
                            then (case finalize C I n result None sc w1 of
                                    None \<Rightarrow> None
                                  | Some (Threw e, w2) \<Rightarrow> Some (Threw e, w2)
                                  | Some (Ret r, w2) \<Rightarrow> Some (Ret r, maybeFreeze I r False w2))
                            else Some (Ret result, w1)) of
                        None \<Rightarrow> None
                      | Some (Threw e, w2) \<Rightarrow> Some (Threw e, w2)
                      | Some (Ret r, w2) \<Rightarrow>
                          Some (finishResult r sc (pushReplacePatches sc r (base (dstates w2 s)) w2))))
            else
              (case finalize C I n baseDraft (Some []) sc w1 of
                 None \<Rightarrow> None
               | Some (Threw e, w2) \<Rightarrow> Some (Threw e, w2)
               | Some (Ret r, w2) \<Rightarrow> Some (finishResult r sc w2)))"

text \<open>
  An argument in a function position: a value the caller passed (a function of the
  caller is \<open>VFun k\<close>, with the behaviour \<open>fns C k\<close>), or a closure the library made.
\<close>

datatype arg = Passed_value val | Closure jsfun

definition argIsFunction :: "arg \<Rightarrow> bool" where
  "argIsFunction r = (case r of Passed_value v \<Rightarrow> isFunction v | Closure f \<Rightarrow> True)"

definition callFn :: "collab \<Rightarrow> val \<Rightarrow> val list \<Rightarrow> world \<Rightarrow> val outcome \<times> world" where
  "callFn C f xs w = (case f of VFun k \<Rightarrow> fns C k xs w | _ \<Rightarrow> (Threw TypeError, w))"

definition callArg :: "collab \<Rightarrow> arg \<Rightarrow> val list \<Rightarrow> world \<Rightarrow> val outcome \<times> world" where
  "callArg C r xs w = (case r of Passed_value v \<Rightarrow> callFn C v xs w | Closure f \<Rightarrow> f xs w)"

text \<open>
  What \<^verbatim>\<open>produce\<close> returns: a value; or, for the curried call, the function
  \<^verbatim>\<open>curriedProduce\<close> with the recipe and the default base it captured; or, when the
  recipe returned a promise, the promise \<^verbatim>\<open>result.then(...)\<close>, given by the recipe's
  promise, the scope and the patch listener its callbacks captured.
\<close>

datatype produced =
    Produced val
  | CurriedProduce val val
  | Deferred val scid listener

text \<open>\<^verbatim>\<open>produce(base, recipe, patchListener)\<close>, lines 101--159.\<close>

definition produce :: "collab \<Rightarrow> immer \<Rightarrow> nat \<Rightarrow> val \<Rightarrow> arg \<Rightarrow> listener \<Rightarrow> world \<Rightarrow> produced res" where
  "produce C I n b recipe l w =
     (if isFunction b \<and> \<not> argIsFunction recipe then
        Some (Ret (CurriedProduce b (case recipe of Passed_value v \<Rightarrow> v | Closure f \<Rightarrow> VUndefined)), w)
      else if \<not> argIsFunction recipe then Some (Threw InvalidRecipeArgument, w)
      else if l \<noteq> Passed VUndefined \<and> \<not> listenerIsFunction l then
        Some (Threw InvalidPatchListenerArgument, w)
      else if isDraftable b w then
        (case enter w of
           (sc, w1) \<Rightarrow>
             (case createProxy I b None w1 of
                (Threw e, w2) \<Rightarrow> Some (Threw e, w2)
              | (Ret proxy, w2) \<Rightarrow>
                  (case callArg C recipe [proxy] w2 of
                     (Threw e, w3) \<Rightarrow> Some (Threw e, revoke sc w3)
                   | (Ret result, w3) \<Rightarrow>
                       if isPromise result then Some (Ret (Deferred result sc l), leave sc w3)
                       else
                         (case processResult C I n result sc (usePatches sc l (leave sc w3)) of
                            None \<Rightarrow> None
                          | Some (Threw e, w4) \<Rightarrow> Some (Threw e, w4)
                          | Some (Ret r, w4) \<Rightarrow> Some (Ret (Produced r), w4)))))
      else
        (case callArg C recipe [b] w of
           (Threw e, w1) \<Rightarrow> Some (Threw e, w1)
         | (Ret result, w1) \<Rightarrow>
             if result = VNothing then Some (Ret (Produced VUndefined), w1)
             else
               let result' = (if result = VUndefined then b else result)
               in Some (Ret (Produced result'), maybeFreeze I result' True w1)))"

text \<open>
  The callbacks of \<^verbatim>\<open>result.then\<close>, lines 139--148: what the deferred production does
  when the recipe's promise is fulfilled with a value, or rejected with an error.
\<close>

definition produce_fulfilled :: "collab \<Rightarrow> immer \<Rightarrow> nat \<Rightarrow> scid \<Rightarrow> listener \<Rightarrow> val \<Rightarrow> world \<Rightarrow> val res" where
  "produce_fulfilled C I n sc l result w = processResult C I n result sc (usePatches sc l w)"

definition produce_rejected :: "scid \<Rightarrow> error \<Rightarrow> world \<Rightarrow> val outcome \<times> world" where
  "produce_rejected sc err w = (Threw err, revoke sc w)"

text \<open>
  \<^verbatim>\<open>curriedProduce(base = defaultBase, ...args)\<close>, lines 108--110: the function a curried
  \<^verbatim>\<open>produce\<close> returns. The default applies when the argument is undefined.
\<close>

definition curriedProduce ::
  "collab \<Rightarrow> immer \<Rightarrow> nat \<Rightarrow> val \<Rightarrow> val \<Rightarrow> val \<Rightarrow> val list \<Rightarrow> world \<Rightarrow> produced res" where
  "curriedProduce C I n recipe defaultBase b xs w =
     produce C I n (if b = VUndefined then defaultBase else b)
       (Closure (\<lambda>ds. callFn C recipe ((case ds of [] \<Rightarrow> VUndefined | d # r \<Rightarrow> d) # xs)))
       (Passed VUndefined) w"

text \<open>\<^verbatim>\<open>produceWithPatches(arg1, arg2, arg3)\<close>, lines 161--176.\<close>

datatype with_patches =
    WithPatches produced "patch list option" "patch list option"
  | CurriedProduceWithPatches val

definition produceWithPatches ::
  "collab \<Rightarrow> immer \<Rightarrow> nat \<Rightarrow> val \<Rightarrow> arg \<Rightarrow> val \<Rightarrow> world \<Rightarrow> with_patches res" where
  "produceWithPatches C I n arg1 arg2 arg3 w =
     (if isFunction arg1 then Some (Ret (CurriedProduceWithPatches arg1), w)
      else if truthy arg3 then Some (Threw PatchListenerNotAllowed, w)
      else
        let c = next_cell w;
            w1 = w\<lparr>cells := (cells w)(c := (None, None)), next_cell := Suc c\<rparr>
        in
          (case produce C I n arg1 arg2 (Capture c) w1 of
             None \<Rightarrow> None
           | Some (Threw e, w2) \<Rightarrow> Some (Threw e, w2)
           | Some (Ret nextState, w2) \<Rightarrow>
               Some (Ret (WithPatches nextState (fst (cells w2 c)) (snd (cells w2 c))), w2)))"

text \<open>The function a curried \<^verbatim>\<open>produceWithPatches\<close> returns, lines 164--165.\<close>

definition curriedProduceWithPatches ::
  "collab \<Rightarrow> immer \<Rightarrow> nat \<Rightarrow> val \<Rightarrow> val \<Rightarrow> val list \<Rightarrow> world \<Rightarrow> with_patches res" where
  "curriedProduceWithPatches C I n arg1 state xs w =
     produceWithPatches C I n state
       (Closure (\<lambda>ds. callFn C arg1 ((case ds of [] \<Rightarrow> VUndefined | d # r \<Rightarrow> d) # xs)))
       VUndefined w"

text \<open>\<^verbatim>\<open>createDraft(base)\<close>, lines 178--187, and \<^verbatim>\<open>finishDraft(draft, patchListener)\<close>, lines 189--203.\<close>

definition createDraft :: "immer \<Rightarrow> val \<Rightarrow> world \<Rightarrow> val outcome \<times> world" where
  "createDraft I b w =
     (if \<not> isDraftable b w then (Threw InvalidManualDraftArgument, w)
      else
        (case enter w of
           (sc, w1) \<Rightarrow>
             (case createProxy I b None w1 of
                (Threw e, w2) \<Rightarrow> (Threw e, w2)
              | (Ret proxy, w2) \<Rightarrow>
                  (case draftStateOf proxy w2 of
                     None \<Rightarrow> (Threw TypeError, w2)
                   | Some s \<Rightarrow> (Ret proxy, leave sc (updState s (\<lambda>x. x\<lparr>isManual := True\<rparr>) w2))))))"

definition finishDraft :: "collab \<Rightarrow> immer \<Rightarrow> nat \<Rightarrow> val \<Rightarrow> listener \<Rightarrow> world \<Rightarrow> val res" where
  "finishDraft C I n d l w =
     (case (if truthy d then draftStateOf d w else None) of
        None \<Rightarrow> Some (Threw InvalidManualDraftArgument, w)
      | Some s \<Rightarrow>
          if \<not> isManual (dstates w s) then Some (Threw InvalidManualDraftArgument, w)
          else if finalized (dstates w s) then Some (Threw DraftAlreadyFinalized, w)
          else processResult C I n VUndefined (scope (dstates w s)) (usePatches (scope (dstates w s)) l w))"

text \<open>
  \<^verbatim>\<open>applyPatches(base, patches)\<close>, lines 224--244. The loop runs \<open>i\<close> from the last index
  down; \<open>findReplace ps k b\<close> is the loop about to test index \<open>k - 1\<close>, and returns the
  final \<open>i\<close> (\<open>-1\<close> when no patch replaced the root) and the base.
\<close>

fun findReplace :: "patch list \<Rightarrow> nat \<Rightarrow> val \<Rightarrow> int \<times> val" where
  "findReplace ps 0 b = (-1, b)"
| "findReplace ps (Suc k) b =
     (if path (ps ! k) = [] \<and> op (ps ! k) = Replace then (int k, pvalue (ps ! k))
      else findReplace ps k b)"

definition applyPatches :: "collab \<Rightarrow> immer \<Rightarrow> nat \<Rightarrow> val \<Rightarrow> patch list \<Rightarrow> world \<Rightarrow> produced res" where
  "applyPatches C I n b ps w =
     (case findReplace ps (length ps) b of
        (i, b') \<Rightarrow>
          if isDraft b' w then
            (case patches_applyPatches C b' ps w of
               (Threw e, w1) \<Rightarrow> Some (Threw e, w1)
             | (Ret r, w1) \<Rightarrow> Some (Ret (Produced r), w1))
          else
            produce C I n b'
              (Closure (\<lambda>ds. patches_applyPatches C (case ds of [] \<Rightarrow> VUndefined | d # r \<Rightarrow> d)
                                (drop (nat (i + 1)) ps)))
              (Passed VUndefined) w)"

section \<open>What the tree walk keeps\<close>

text \<open>
  Three relations between a world \<open>a\<close> and a later world \<open>w\<close>: every scope has the
  patch lists, listener, drafts and parent it had; every draft state has the fields it
  had, but for \<^verbatim>\<open>finalized\<close> and \<^verbatim>\<open>copy\<close>; every draft state has the copy it had.
\<close>

definition scopes_kept :: "world \<Rightarrow> world \<Rightarrow> bool" where
  "scopes_kept a w \<longleftrightarrow>
     current w = current a \<and> next_scope w = next_scope a \<and>
     (\<forall>sc. patches (scopes w sc) = patches (scopes a sc) \<and>
           inversePatches (scopes w sc) = inversePatches (scopes a sc) \<and>
           patchListener (scopes w sc) = patchListener (scopes a sc) \<and>
           drafts (scopes w sc) = drafts (scopes a sc) \<and>
           parent (scopes w sc) = parent (scopes a sc))"

definition states_kept :: "world \<Rightarrow> world \<Rightarrow> bool" where
  "states_kept a w \<longleftrightarrow>
     next_sid w = next_sid a \<and>
     (\<forall>s. base (dstates w s) = base (dstates a s) \<and>
          scope (dstates w s) = scope (dstates a s) \<and>
          modified (dstates w s) = modified (dstates a s) \<and>
          draft (dstates w s) = draft (dstates a s) \<and>
          assigned (dstates w s) = assigned (dstates a s) \<and>
          isManual (dstates w s) = isManual (dstates a s) \<and>
          revoked (dstates w s) = revoked (dstates a s))"

definition copies_kept :: "world \<Rightarrow> world \<Rightarrow> bool" where
  "copies_kept a w \<longleftrightarrow> (\<forall>s. copy (dstates w s) = copy (dstates a s))"

text \<open>\<open>w\<close> is \<open>a\<close> with more objects frozen, and nothing else changed.\<close>

definition frozen_only :: "world \<Rightarrow> world \<Rightarrow> bool" where
  "frozen_only a w \<longleftrightarrow>
     dstates w = dstates a \<and> scopes w = scopes a \<and> current w = current a \<and>
     next_addr w = next_addr a \<and> next_sid w = next_sid a \<and> next_scope w = next_scope a \<and>
     cells w = cells a \<and> next_cell w = next_cell a \<and> events w = events a \<and>
     (\<forall>x. kind (heap w x) = kind (heap a x) \<and> entries (heap w x) = entries (heap a x) \<and>
          dstate (heap w x) = dstate (heap a x) \<and> (frozen (heap a x) \<longrightarrow> frozen (heap w x)))"

text \<open>
  A relation \<open>R\<close> is kept by the walk when every step the walk is made of keeps it;
  \<open>ok\<close> tells for which patch paths \<^verbatim>\<open>generatePatches\<close> may run.
\<close>

definition walk_invariant ::
  "(world \<Rightarrow> world \<Rightarrow> bool) \<Rightarrow> (val list option \<Rightarrow> bool) \<Rightarrow> collab \<Rightarrow> immer \<Rightarrow> bool" where
  "walk_invariant R ok C I \<longleftrightarrow>
     (\<forall>a v deep w. R a w \<longrightarrow> R a (freeze v deep w)) \<and>
     (\<forall>a s w. R a w \<longrightarrow> R a (updState s (\<lambda>x. x\<lparr>finalized := True\<rparr>) w)) \<and>
     (\<forall>a e w. R a w \<longrightarrow> R a (emit e w)) \<and>
     (\<forall>a s pth sc w. ok pth \<longrightarrow> R a w \<longrightarrow> R a (recordPatches C s pth sc w)) \<and>
     (\<forall>a b f w. R a w \<longrightarrow> R a (updObj b (\<lambda>ob. ob\<lparr>entries := f (entries ob)\<rparr>) w)) \<and>
     (\<forall>a sc w. R a w \<longrightarrow> R a (updScope sc (\<lambda>x. x\<lparr>canAutoFreeze := False\<rparr>) w)) \<and>
     (\<forall>a root st w. R a w \<longrightarrow> R a (snd (prepareRoot I root st w))) \<and>
     ok None \<and>
     (\<forall>p q. ok (Some p) \<longrightarrow> ok (Some q))"

section \<open>Example states\<close>

text \<open>Tables from lists, and objects from their entries.\<close>

definition tab :: "'a \<Rightarrow> 'a list \<Rightarrow> nat \<Rightarrow> 'a" where
  "tab dflt xs i = (if i < length xs then xs ! i else dflt)"

definition mkObj :: "kind \<Rightarrow> (val \<times> val) list \<Rightarrow> jsobj" where
  "mkObj k es = \<lparr>kind = k, entries = map (\<lambda>(x, v). (x, v, True)) es, frozen = False, dstate = None\<rparr>"

definition mkDraft :: "kind \<Rightarrow> (val \<times> val) list \<Rightarrow> sid \<Rightarrow> jsobj" where
  "mkDraft k es s = \<lparr>kind = k, entries = map (\<lambda>(x, v). (x, v, True)) es, frozen = False, dstate = Some s\<rparr>"

definition mkState :: "val \<Rightarrow> val \<Rightarrow> scid \<Rightarrow> bool \<Rightarrow> val \<Rightarrow> (val \<times> bool) list \<Rightarrow> draft_state" where
  "mkState b c sc m d as =
     \<lparr>base = b, copy = c, scope = sc, modified = m, finalized = False, draft = d, assigned = as,
      isManual = False, revoked = False\<rparr>"

definition mkScope :: "val list \<Rightarrow> scid option \<Rightarrow> patch list option \<Rightarrow> listener \<Rightarrow> immer_scope" where
  "mkScope ds p ps l =
     \<lparr>drafts = Some ds, parent = p, patches = ps, inversePatches = ps, patchListener = l,
      canAutoFreeze = True\<rparr>"

definition mkWorld :: "jsobj list \<Rightarrow> draft_state list \<Rightarrow> immer_scope list \<Rightarrow> scid option \<Rightarrow> world" where
  "mkWorld os ss scs cur =
     \<lparr>heap = tab (mkObj KObject []) os, next_addr = length os,
      dstates = tab (mkState VUndefined VUndefined 0 False VUndefined []) ss, next_sid = length ss,
      scopes = tab (mkScope [] None None (Passed VUndefined)) scs, next_scope = length scs,
      current = cur, cells = (\<lambda>c. (None, None)), next_cell = 0, events = []\<rparr>"

text \<open>
  The caller's functions of the examples: function 0 returns the delete sentinel,
  function 1 returns nothing, function 2 returns 7, function 4 writes through the
  draft it is given (its state gets a copy and is marked modified) and returns 5,
  every other one returns its last argument. The example patch engine generates no
  patches and, applying patches, returns how many it was given.
\<close>

definition exWrite :: "val list \<Rightarrow> world \<Rightarrow> world" where
  "exWrite xs w =
     (case xs of
        [] \<Rightarrow> w
      | d # r \<Rightarrow>
          (case draftStateOf d w of
             None \<Rightarrow> w
           | Some s \<Rightarrow>
               (case shallowCopy (base (dstates w s)) w of
                  (c, w') \<Rightarrow> updState s (\<lambda>x. x\<lparr>copy := c, modified := True\<rparr>) w')))"

definition exC :: collab where
  "exC = \<lparr>fns = (\<lambda>k xs w.
             if k = 0 then (Ret VNothing, w)
             else if k = 1 then (Ret VUndefined, w)
             else if k = 2 then (Ret (VNum 7), w)
             else if k = 4 then (Ret (VNum 5), exWrite xs w)
             else (Ret (if xs = [] then VUndefined else last xs), w)),
          generatePatches = (\<lambda>s p w. ([], [])),
          patches_applyPatches = (\<lambda>d ps w. (Ret (VNum (int (length ps))), w)),
          willFinalizeES5 = (\<lambda>sc v r w. w)\<rparr>"

definition exI :: immer where
  "exI = \<lparr>useProxies = True, autoFreeze = True, onAssign = True, onDelete = True, onCopy = True\<rparr>"


text \<open>
  \<open>exW\<close>: the base \<^verbatim>\<open>{a: {x: 1}, b: {y: 2}, c: {z: 0}}\<close> (objects 0, 1, 2, 8) after a
  recipe that read \<^verbatim>\<open>draft.a\<close> and set \<^verbatim>\<open>draft.b.y = 3\<close>: the root draft (object 3,
  state 0) and the draft of \<^verbatim>\<open>b\<close> (object 5, state 1) are modified, with the copies 4
  and 6; the draft of \<^verbatim>\<open>a\<close> (object 7, state 2) is not; \<^verbatim>\<open>c\<close> was never read and has no
  draft.
\<close>

definition exW :: world where
  "exW = mkWorld
     [mkObj KObject [(VStr ''a'', VRef 1), (VStr ''b'', VRef 2), (VStr ''c'', VRef 8)],
      mkObj KObject [(VStr ''x'', VNum 1)],
      mkObj KObject [(VStr ''y'', VNum 2)],
      mkDraft KObject [(VStr ''a'', VRef 7), (VStr ''b'', VRef 5), (VStr ''c'', VRef 8)] 0,
      mkObj KObject [(VStr ''a'', VRef 7), (VStr ''b'', VRef 5), (VStr ''c'', VRef 8)],
      mkDraft KObject [(VStr ''y'', VNum 3)] 1,
      mkObj KObject [(VStr ''y'', VNum 3)],
      mkDraft KObject [(VStr ''x'', VNum 1)] 2,
      mkObj KObject [(VStr ''z'', VNum 0)]]
     [mkState (VRef 0) (VRef 4) 0 True (VRef 3) [],
      mkState (VRef 2) (VRef 6) 0 True (VRef 5) [(VStr ''y'', True)],
      mkState (VRef 1) VUndefined 0 False (VRef 7) []]
     [mkScope [VRef 3, VRef 5, VRef 7] None None (Passed VUndefined)]
     None"

text \<open>
  \<open>exN\<close>: a nested production. The outer scope 0 owns the draft 1 of \<^verbatim>\<open>{x: 1}\<close>; the
  inner scope 1 owns the draft 3 of \<^verbatim>\<open>{}\<close>, whose recipe stored the outer draft in it
  (copy 4 is \<^verbatim>\<open>{o: outerDraft}\<close>).
\<close>

definition exN :: world where
  "exN = mkWorld
     [mkObj KObject [(VStr ''x'', VNum 1)],
      mkDraft KObject [(VStr ''x'', VNum 1)] 0,
      mkObj KObject [],
      mkDraft KObject [(VStr ''o'', VRef 1)] 1,
      mkObj KObject [(VStr ''o'', VRef 1)]]
     [mkState (VRef 0) VUndefined 0 False (VRef 1) [],
      mkState (VRef 2) (VRef 4) 1 True (VRef 3) [(VStr ''o'', True)]]
     [mkScope [VRef 1] None None (Passed VUndefined),
      mkScope [VRef 3] (Some 0) None (Passed VUndefined)]
     (Some 0)"

text \<open>
  \<open>exS\<close>: the recipe on the draft 1 of \<^verbatim>\<open>{}\<close> returned the new object 2 that refers to
  itself, \<^verbatim>\<open>res.self = res\<close>.
\<close>

definition exS :: world where
  "exS = mkWorld
     [mkObj KObject [],
      mkDraft KObject [] 0,
      mkObj KObject [(VStr ''self'', VRef 2)]]
     [mkState (VRef 0) VUndefined 0 False (VRef 1) []]
     [mkScope [VRef 1] None None (Passed VUndefined)]
     None"

text \<open>
  \<open>exR\<close>: the recipe on the draft 1 of \<^verbatim>\<open>{a: {x: 1}}\<close> (objects 0 and 2) read \<^verbatim>\<open>draft.a\<close>
  (draft 3) and returned the new object 4, \<^verbatim>\<open>{k: draft.a}\<close>; a listener (the closure
  with cell 0) is registered.
\<close>

definition exR :: world where
  "exR = mkWorld
     [mkObj KObject [(VStr ''a'', VRef 2)],
      mkDraft KObject [(VStr ''a'', VRef 3)] 0,
      mkObj KObject [(VStr ''x'', VNum 1)],
      mkDraft KObject [(VStr ''x'', VNum 1)] 1,
      mkObj KObject [(VStr ''k'', VRef 3)]]
     [mkState (VRef 0) VUndefined 0 False (VRef 1) [],
      mkState (VRef 2) VUndefined 0 False (VRef 3) []]
     [mkScope [VRef 1, VRef 3] None (Some []) (Capture 0)]
     None"

text \<open>
  \<open>exD\<close>: the recipe on the draft 1 of \<^verbatim>\<open>{}\<close> stored the draft under itself,
  \<^verbatim>\<open>draft.self = draft\<close>: the copy 2 is \<^verbatim>\<open>{self: draft}\<close>.
\<close>

definition exD :: world where
  "exD = mkWorld
     [mkObj KObject [],
      mkDraft KObject [(VStr ''self'', VRef 1)] 0,
      mkObj KObject [(VStr ''self'', VRef 1)]]
     [mkState (VRef 0) (VRef 2) 0 True (VRef 1) [(VStr ''self'', True)]]
     [mkScope [VRef 1] None None (Passed VUndefined)]
     None"

text \<open>\<open>exP\<close>: only the base \<^verbatim>\<open>{a: 1}\<close>, no production under way.\<close>

definition exP :: world where
  "exP = mkWorld [mkObj KObject [(VStr ''a'', VNum 1)]] [] [] None"

section \<open>Lemmas: unfolding the finalizer\<close>

lemma finalize_0: "finalize C I 0 d pth sc w = None"
  by simp

lemma finalize_Suc:
  "finalize C I (Suc n) d pth sc w = finalize_body (finalizeTree C I n) C I d pth sc w"
  by (simp add: finalizeTree_def)


lemma finalizeProperty_0:
  "finalizeProperty fin I 0 st root rootPath needPatches sc k v par w = None"
  by simp

lemma finalizeProperty_Suc:
  "finalizeProperty fin I (Suc n) st root rootPath needPatches sc k v par w
     = finalizeProperty_body fin (finalizeProperty fin I n st root rootPath needPatches sc)
         I st root rootPath needPatches sc k v par w"
  by simp

declare finalize.simps [simp del] finalizeProperty.simps [simp del]

lemma readDraftState_Some:
  "draftStateOf d w = Some s \<Longrightarrow> readDraftState d w = Ret (Some s)"
  by (cases d) (simp_all add: readDraftState_def draftStateOf_def)

lemma each_body_append:
  "each_body iter (ks1 @ ks2) ob w =
     (case each_body iter ks1 ob w of
        None \<Rightarrow> None
      | Some (Threw e, w1) \<Rightarrow> Some (Threw e, w1)
      | Some (Ret u, w1) \<Rightarrow> each_body iter ks2 ob w1)"
  by (induction ks1 arbitrary: w) (auto split: option.splits outcome.splits prod.splits)

section \<open>Lemmas: relations the walk keeps\<close>

lemma wi_freeze: "walk_invariant R ok C I \<Longrightarrow> R a w \<Longrightarrow> R a (freeze v deep w)"
  by (simp add: walk_invariant_def)

lemma wi_finalized: "walk_invariant R ok C I \<Longrightarrow> R a w \<Longrightarrow> R a (updState s (\<lambda>x. x\<lparr>finalized := True\<rparr>) w)"
  by (simp add: walk_invariant_def)

lemma wi_emit: "walk_invariant R ok C I \<Longrightarrow> R a w \<Longrightarrow> R a (emit e w)"
  by (simp add: walk_invariant_def)

lemma wi_recordPatches: "walk_invariant R ok C I \<Longrightarrow> ok pth \<Longrightarrow> R a w \<Longrightarrow> R a (recordPatches C s pth sc w)"
  by (simp add: walk_invariant_def)

lemma wi_entries: "walk_invariant R ok C I \<Longrightarrow> R a w \<Longrightarrow> R a (updObj b (\<lambda>ob. ob\<lparr>entries := f (entries ob)\<rparr>) w)"
  by (simp add: walk_invariant_def)

lemma wi_canAutoFreeze: "walk_invariant R ok C I \<Longrightarrow> R a w \<Longrightarrow> R a (updScope sc (\<lambda>x. x\<lparr>canAutoFreeze := False\<rparr>) w)"
  by (simp add: walk_invariant_def)

lemma wi_prepareRoot: "walk_invariant R ok C I \<Longrightarrow> prepareRoot I root st w = (r, w1) \<Longrightarrow> R a w \<Longrightarrow> R a w1"
  unfolding walk_invariant_def by (metis snd_conv)

lemma wi_ok_None: "walk_invariant R ok C I \<Longrightarrow> ok None"
  by (simp add: walk_invariant_def)

lemma wi_ok_Some: "walk_invariant R ok C I \<Longrightarrow> ok (Some p) \<Longrightarrow> ok (Some q)"
  by (auto simp: walk_invariant_def)

lemma wi_maybeFreeze: "walk_invariant R ok C I \<Longrightarrow> R a w \<Longrightarrow> R a (maybeFreeze I v deep w)"
  by (simp add: maybeFreeze_def wi_freeze)

lemma wi_onAssignHook:
  "walk_invariant R ok C I \<Longrightarrow> R a w \<Longrightarrow> R a (onAssignHook I st p q prop v w)"
  by (simp add: onAssignHook_def wi_emit split: option.splits)

lemma wi_onCopyHook: "walk_invariant R ok C I \<Longrightarrow> R a w \<Longrightarrow> R a (onCopyHook I s w)"
  by (simp add: onCopyHook_def wi_emit)

lemma wi_fold_emit:
  "walk_invariant R ok C I \<Longrightarrow> R a w \<Longrightarrow> R a (fold (\<lambda>x w'. if P x then emit (f x) w' else w') xs w)"
  by (induction xs arbitrary: w) (simp_all add: wi_emit)

lemma wi_onDeleteHooks: "walk_invariant R ok C I \<Longrightarrow> R a w \<Longrightarrow> R a (onDeleteHooks I s w)"
proof -
  assume wi: "walk_invariant R ok C I" and r: "R a w"
  have 1: "R a (fold (\<lambda>(prop, present) w'. if \<not> present then emit (OnDelete s prop) w' else w') xs w)" for xs
    using wi_fold_emit [OF wi r, of "\<lambda>x. \<not> snd x" "\<lambda>x. OnDelete s (fst x)" xs]
    by (simp add: case_prod_unfold)
  have 2: "R a (fold (\<lambda>prop w'. if \<not> has c prop w then emit (OnDelete s prop) w' else w') xs w)" for xs c
    using wi_fold_emit [OF wi r, of "\<lambda>x. \<not> has c x w" "\<lambda>x. OnDelete s x" xs] by simp
  show ?thesis
    using r 1 2 by (simp add: onDeleteHooks_def)
qed

lemma wi_autoFreezeCopy: "walk_invariant R ok C I \<Longrightarrow> R a w \<Longrightarrow> R a (autoFreezeCopy I s sc w)"
  by (simp add: autoFreezeCopy_def wi_freeze)

lemma wi_replace:
  "walk_invariant R ok C I \<Longrightarrow> replace par prop v w = (x, w') \<Longrightarrow> R a w \<Longrightarrow> R a w'"
  by (auto simp: replace_def split: val.splits if_splits
        intro: wi_entries [where f = "setEntry prop v True"] wi_entries [where f = "setEntry prop v False"]
          wi_entries [where f = "\<lambda>es. setAdd v (setDelete prop es)"])

lemma each_body_ext:
  assumes iter: "\<And>k v par w x w' a. iter k v par w = Some (x, w') \<Longrightarrow> R a w \<Longrightarrow> R a w'"
  shows "each_body iter ks ob w = Some (x, w') \<Longrightarrow> R a w \<Longrightarrow> R a w'"
proof (induction ks arbitrary: w)
  case Nil
  then show ?case by simp
next
  case (Cons k ks)
  show ?case
  proof (cases "iter k (get ob k w) ob w")
    case None
    with Cons.prems show ?thesis by simp
  next
    case (Some p)
    obtain r w1 where p: "p = (r, w1)" by (cases p)
    have r1: "R a w1" using iter Some p Cons.prems(2) by blast
    show ?thesis
    proof (cases r)
      case (Ret u)
      with Some p Cons.prems have "each_body iter ks ob w1 = Some (x, w')" by simp
      then show ?thesis using Cons.IH r1 by blast
    next
      case (Threw e)
      with Some p Cons.prems have "w' = w1" by simp
      then show ?thesis using r1 by simp
    qed
  qed
qed

lemma finalizeProperty_body_ext:
  assumes wi: "walk_invariant R ok C I"
    and fin: "\<And>d pth sc w x w' a. ok pth \<Longrightarrow> fin d pth sc w = Some (x, w') \<Longrightarrow> R a w \<Longrightarrow> R a w'"
    and fp: "\<And>k v par w x w' a. fp k v par w = Some (x, w') \<Longrightarrow> R a w \<Longrightarrow> R a w'"
    and np: "\<And>q. needPatches \<Longrightarrow> ok (Some q)"
    and run: "finalizeProperty_body fin fp I st root rootPath needPatches sc prop v par w = Some (x, w')"
    and r: "R a w"
  shows "R a w'"
proof -
  let ?idp = "st \<noteq> None \<and> par = root"
  let ?ism = "isSet par w"
  let ?cp = "childPath st rootPath ?idp needPatches ?ism prop w"
  have okcp: "ok ?cp"
    using np wi_ok_None [OF wi]
    by (auto simp: childPath_def split: option.splits)
  show ?thesis
  proof (cases "v = par")
    case True
    with run r show ?thesis by (simp add: finalizeProperty_body_def)
  next
    case neq: False
    show ?thesis
    proof (cases "isDraft v w")
      case True
      show ?thesis
      proof (cases "fin v ?cp sc w")
        case None
        with run neq True show ?thesis by (simp add: finalizeProperty_body_def Let_def)
      next
        case (Some p)
        obtain r1 w1 where p: "p = (r1, w1)" by (cases p)
        have R1: "R a w1" using fin [OF okcp] Some p r by blast
        show ?thesis
        proof (cases r1)
          case (Threw e)
          with run neq True Some p have "w' = w1" by (simp add: finalizeProperty_body_def Let_def)
          with R1 show ?thesis by simp
        next
          case (Ret v')
          obtain r2 w2 where rep: "replace par prop v' w1 = (r2, w2)" by (cases "replace par prop v' w1")
          have R2: "R a w2" using wi_replace [OF wi rep R1] .
          show ?thesis
          proof (cases r2)
            case (Threw e)
            with run neq True Some p Ret rep have "w' = w2" by (simp add: finalizeProperty_body_def Let_def)
            with R2 show ?thesis by simp
          next
            case (Ret u)
            with run neq True Some p \<open>r1 = Ret v'\<close> rep
            have "w' = onAssignHook I st ?idp ?ism prop v'
                     (if isDraft v' w2 then updScope sc (\<lambda>x. x\<lparr>canAutoFreeze := False\<rparr>) w2 else w2)"
              by (simp add: finalizeProperty_body_def Let_def)
            then show ?thesis
              using R2 by (simp add: wi_onAssignHook [OF wi] wi_canAutoFreeze [OF wi])
          qed
        qed
      qed
    next
      case nd: False
      show ?thesis
      proof (cases "?idp \<and> sameValue v (get (case st of Some s \<Rightarrow> base (dstates w s) | None \<Rightarrow> VUndefined) prop w)")
        case True
        with run neq nd have "w' = w" by (simp add: finalizeProperty_body_def Let_def)
        with r show ?thesis by simp
      next
        case ns: False
        show ?thesis
        proof (cases "isDraftable v w \<and> \<not> isFrozen v w")
          case False
          with run neq nd ns have "w' = onAssignHook I st ?idp ?ism prop v w"
            by (auto simp: finalizeProperty_body_def Let_def)
          then show ?thesis using r by (simp add: wi_onAssignHook [OF wi])
        next
          case True
          show ?thesis
          proof (cases "each_body fp (ownKeys v w) v w")
            case None
            with run neq nd ns True show ?thesis by (auto simp: finalizeProperty_body_def Let_def)
          next
            case (Some p)
            obtain r1 w1 where p: "p = (r1, w1)" by (cases p)
            have R1: "R a w1"
              by (rule each_body_ext [where iter = fp and R = R and a = a and w = w, OF fp])
                 (use Some p r in auto)
            show ?thesis
            proof (cases r1)
              case (Threw e)
              with run neq nd ns True Some p have "w' = w1" by (auto simp: finalizeProperty_body_def Let_def)
              with R1 show ?thesis by simp
            next
              case (Ret u)
              with run neq nd ns True Some p
              have "w' = onAssignHook I st ?idp ?ism prop v (maybeFreeze I v False w1)"
                by (auto simp: finalizeProperty_body_def Let_def)
              then show ?thesis using R1 by (simp add: wi_onAssignHook [OF wi] wi_maybeFreeze [OF wi])
            qed
          qed
        qed
      qed
    qed
  qed
qed

lemma finalizeProperty_ext:
  assumes wi: "walk_invariant R ok C I"
    and fin: "\<And>d pth sc w x w' a. ok pth \<Longrightarrow> fin d pth sc w = Some (x, w') \<Longrightarrow> R a w \<Longrightarrow> R a w'"
    and np: "\<And>q. needPatches \<Longrightarrow> ok (Some q)"
  shows "finalizeProperty fin I n st root rootPath needPatches sc k0 v par w = Some (x, w')
           \<Longrightarrow> R a w \<Longrightarrow> R a w'"
proof (induction n arbitrary: k0 v par w x w' a)
  case 0
  then show ?case by (simp add: finalizeProperty_0)
next
  case (Suc n)
  have run: "finalizeProperty_body fin (finalizeProperty fin I n st root rootPath needPatches sc)
               I st root rootPath needPatches sc k0 v par w = Some (x, w')"
    using Suc.prems(1) by (simp add: finalizeProperty_Suc)
  show ?case
    by (rule finalizeProperty_body_ext [OF wi fin _ np run Suc.prems(2)]) (use Suc.IH in blast)+
qed

lemma finalizeTree_body_ext:
  assumes wi: "walk_invariant R ok C I"
    and fp: "\<And>st root needPatches sc k v par w x w' a.
               (\<And>q. needPatches \<Longrightarrow> ok (Some q)) \<Longrightarrow>
               fp st root rootPath needPatches sc k v par w = Some (x, w') \<Longrightarrow> R a w \<Longrightarrow> R a w'"
    and okp: "ok rootPath"
    and run: "finalizeTree_body fp I root rootPath sc w = Some (x, w')"
    and r: "R a w"
  shows "R a w'"
proof (cases "readDraftState root w")
  case (Threw e)
  with run r show ?thesis by (simp add: finalizeTree_body_def)
next
  case (Ret st)
  obtain root' w1 where pr: "prepareRoot I root st w = (root', w1)" by (cases "prepareRoot I root st w")
  have R1: "R a w1" using wi_prepareRoot [OF wi pr r] .
  let ?np = "rootPath \<noteq> None \<and> patches (scopes w1 sc) \<noteq> None"
  have np: "\<And>q. ?np \<Longrightarrow> ok (Some q)"
    using okp wi_ok_Some [OF wi] by auto
  show ?thesis
  proof (cases "each_body (fp st root' rootPath ?np sc) (ownKeys root' w1) root' w1")
    case None
    with run Ret pr show ?thesis by (simp add: finalizeTree_body_def)
  next
    case (Some p)
    obtain r1 w2 where p: "p = (r1, w2)" by (cases p)
    have "R a w2"
    proof (rule each_body_ext [where iter = "fp st root' rootPath ?np sc" and R = R and a = a and w = w1])
      show "each_body (fp st root' rootPath ?np sc) (ownKeys root' w1) root' w1 = Some (r1, w2)"
        using Some p by simp
      show "R a w1" by (rule R1)
    next
      fix k v par w3 x3 w3' a3
      assume "fp st root' rootPath ?np sc k v par w3 = Some (x3, w3')" and "R a3 w3"
      then show "R a3 w3'" using fp [OF np] by blast
    qed
    moreover have "w' = w2"
      using run Ret pr Some p by (cases r1) (simp_all add: finalizeTree_body_def)
    ultimately show ?thesis by simp
  qed
qed

lemma finalize_body_ext:
  assumes wi: "walk_invariant R ok C I"
    and tree: "\<And>root rootPath sc w x w' a. ok rootPath \<Longrightarrow> tree root rootPath sc w = Some (x, w') \<Longrightarrow> R a w \<Longrightarrow> R a w'"
    and okp: "ok pth"
    and run: "finalize_body tree C I d pth sc w = Some (x, w')"
    and r: "R a w"
  shows "R a w'"
proof (cases "readDraftState d w")
  case (Threw e)
  with run r show ?thesis by (simp add: finalize_body_def)
next
  case (Ret st)
  show ?thesis
  proof (cases st)
    case None
    with run Ret r tree [OF wi_ok_None [OF wi]] show ?thesis
      by (auto simp: finalize_body_def split: if_splits)
  next
    case (Some s)
    show ?thesis
    proof (cases "scope (dstates w s) \<noteq> sc \<or> \<not> modified (dstates w s) \<or> finalized (dstates w s)")
      case True
      with run Ret Some r show ?thesis
        by (auto simp: finalize_body_def wi_maybeFreeze [OF wi] split: if_splits)
    next
      case False
      let ?w0 = "updState s (\<lambda>x. x\<lparr>finalized := True\<rparr>) w"
      have R0: "R a ?w0" using wi_finalized [OF wi r] .
      show ?thesis
      proof (cases "tree (draft (dstates w s)) pth sc ?w0")
        case None
        with run Ret Some False show ?thesis by (simp add: finalize_body_def)
      next
        case (Some p)
        obtain r1 w1 where p: "p = (r1, w1)" by (cases p)
        have R1: "R a w1" using tree [OF okp] Some p R0 by blast
        show ?thesis
        proof (cases r1)
          case (Threw e)
          with run Ret \<open>st = Some s\<close> False Some p have "w' = w1" by (simp add: finalize_body_def)
          with R1 show ?thesis by simp
        next
          case (Ret u)
          with run \<open>readDraftState d w = Ret st\<close> \<open>st = Some s\<close> False Some p
          have "w' = recordPatches C s pth sc (autoFreezeCopy I s sc (onCopyHook I s (onDeleteHooks I s w1)))"
            by (simp add: finalize_body_def Let_def)
          then show ?thesis
            using R1 okp
            by (simp add: wi_recordPatches [OF wi] wi_autoFreezeCopy [OF wi] wi_onCopyHook [OF wi]
                  wi_onDeleteHooks [OF wi])
        qed
      qed
    qed
  qed
qed

lemma finalize_ext:
  assumes wi: "walk_invariant R ok C I"
  shows "ok pth \<Longrightarrow> finalize C I n d pth sc w = Some (x, w') \<Longrightarrow> R a w \<Longrightarrow> R a w'"
proof (induction n arbitrary: d pth sc w x w' a)
  case 0
  then show ?case by (simp add: finalize_0)
next
  case (Suc n)
  have run: "finalize_body (finalizeTree_body (finalizeProperty (finalize C I n) I n) I) C I d pth sc w = Some (x, w')"
    using Suc.prems(2) by (simp add: finalize_Suc finalizeTree_def)
  have tree: "R a2 w2'"
    if "ok rootPath" "finalizeTree_body (finalizeProperty (finalize C I n) I n) I root rootPath sc2 w2 = Some (x2, w2')" "R a2 w2"
    for root rootPath sc2 w2 x2 w2' a2
  proof (rule finalizeTree_body_ext [OF wi _ that])
    fix st root' needPatches sc3 k v par w3 x3 w3' a3
    assume np: "\<And>q. needPatches \<Longrightarrow> ok (Some q)"
      and fprun: "finalizeProperty (finalize C I n) I n st root' rootPath needPatches sc3 k v par w3 = Some (x3, w3')"
      and r3: "R a3 w3"
    show "R a3 w3'"
      by (rule finalizeProperty_ext [OF wi _ np fprun r3]) (use Suc.IH in blast)+
  qed
  show ?case
    by (rule finalize_body_ext [OF wi _ Suc.prems(1) run Suc.prems(3)]) (use tree in blast)
qed

lemma fold_pres: "(\<And>c w. P w \<Longrightarrow> P (f c w)) \<Longrightarrow> P w \<Longrightarrow> P (fold f cs w)"
  by (induction cs arbitrary: w) simp_all

lemma freezeFuel_pres:
  assumes step: "\<And>a w. P w \<Longrightarrow> P (updObj a (\<lambda>ob. ob\<lparr>frozen := True\<rparr>) w)"
  shows "P w \<Longrightarrow> P (freezeFuel n v deep w)"
proof (induction n arbitrary: v deep w)
  case 0
  then show ?case by simp
next
  case (Suc n)
  show ?case
  proof (cases v)
    case (VRef a)
    have 1: "P (updObj a (\<lambda>ob. ob\<lparr>frozen := True\<rparr>) w)" using step Suc.prems by blast
    have 2: "P (fold (\<lambda>c w'. freezeFuel n c True w') cs (updObj a (\<lambda>ob. ob\<lparr>frozen := True\<rparr>) w))" for cs
      by (rule fold_pres) (use Suc.IH 1 in auto)
    show ?thesis using VRef Suc.prems 1 2 by (simp add: Let_def)
  qed (use Suc.prems in simp_all)
qed

lemma frozen_only_refl: "frozen_only w w"
  by (simp add: frozen_only_def)

lemma freeze_frozen_only: "frozen_only a (freeze v deep a)"
  unfolding freeze_def
  by (rule freezeFuel_pres) (auto simp: frozen_only_def updObj_def)

lemma maybeFreeze_frozen_only: "frozen_only a (maybeFreeze I v deep a)"
  by (simp add: maybeFreeze_def freeze_frozen_only frozen_only_refl)

lemma frozen_only_draftStateOf: "frozen_only a w \<Longrightarrow> draftStateOf v w = draftStateOf v a"
  by (cases v) (simp_all add: draftStateOf_def frozen_only_def)

lemma frozen_only_isDraft: "frozen_only a w \<Longrightarrow> isDraft v w = isDraft v a"
  by (simp add: isDraft_def frozen_only_draftStateOf)

lemma frozen_only_isDraftable: "frozen_only a w \<Longrightarrow> isDraftable v w = isDraftable v a"
  by (cases v) (simp_all add: isDraftable_def isPlainObject_def isArray_def isMap_def isSet_def kindOf_def frozen_only_def)

lemma frozen_only_get: "frozen_only a w \<Longrightarrow> get ob k w = get ob k a"
  by (cases ob) (simp_all add: get_def entriesOf_def frozen_only_def)

lemma wi_scopes_kept: "walk_invariant scopes_kept (\<lambda>p. p = None) C I"
proof -
  have fr: "scopes_kept a (freeze v deep w)" if "scopes_kept a w" for a v deep w
    using that freeze_frozen_only [of w v deep] by (simp add: scopes_kept_def frozen_only_def)
  have pr: "scopes_kept a (snd (prepareRoot I root st w))" if "scopes_kept a w" for a root st w
    using that
    by (auto simp: prepareRoot_def scopes_kept_def shallowCopy_def updState_def Let_def
        split: option.splits val.splits)
  show ?thesis
    unfolding walk_invariant_def
    using fr pr
    by (auto simp: scopes_kept_def updState_def emit_def recordPatches_def updObj_def updScope_def)
qed

lemma wi_states_kept: "walk_invariant states_kept (\<lambda>p. True) C I"
proof -
  have fr: "states_kept a (freeze v deep w)" if "states_kept a w" for a v deep w
    using that freeze_frozen_only [of w v deep] by (simp add: states_kept_def frozen_only_def)
  have pr: "states_kept a (snd (prepareRoot I root st w))" if "states_kept a w" for a root st w
    using that
    by (auto simp: prepareRoot_def states_kept_def shallowCopy_def updState_def Let_def
        split: option.splits val.splits)
  have rp: "states_kept a (recordPatches C s pth sc w)" if "states_kept a w" for a s pth sc w
    using that
    by (auto simp: recordPatches_def states_kept_def updScope_def split: option.splits prod.splits)
  show ?thesis
    unfolding walk_invariant_def
    using fr pr rp
    by (auto simp: states_kept_def updState_def emit_def updObj_def updScope_def)
qed

lemma wi_copies_kept: "useProxies I \<Longrightarrow> walk_invariant copies_kept (\<lambda>p. True) C I"
proof -
  assume up: "useProxies I"
  have fr: "copies_kept a (freeze v deep w)" if "copies_kept a w" for a v deep w
    using that freeze_frozen_only [of w v deep] by (simp add: copies_kept_def frozen_only_def)
  have pr: "copies_kept a (snd (prepareRoot I root st w))" if "copies_kept a w" for a root st w
    using that up
    by (auto simp: prepareRoot_def copies_kept_def Let_def split: option.splits)
  have rp: "copies_kept a (recordPatches C s pth sc w)" if "copies_kept a w" for a s pth sc w
    using that
    by (auto simp: recordPatches_def copies_kept_def updScope_def split: option.splits prod.splits)
  show ?thesis
    unfolding walk_invariant_def
    using fr pr rp
    by (auto simp: copies_kept_def updState_def emit_def updObj_def updScope_def)
qed

lemma finalize_scopes_kept:
  "finalize C I n d None sc w = Some (x, w') \<Longrightarrow> scopes_kept w w'"
  by (rule finalize_ext [OF wi_scopes_kept, where a = w and w = w]) (simp_all add: scopes_kept_def)

lemma finalize_states_kept:
  "finalize C I n d pth sc w = Some (x, w') \<Longrightarrow> states_kept w w'"
  by (rule finalize_ext [OF wi_states_kept, where a = w and w = w]) (simp_all add: states_kept_def)

lemma finalize_copies_kept:
  "useProxies I \<Longrightarrow> finalize C I n d pth sc w = Some (x, w') \<Longrightarrow> copies_kept w w'"
  by (rule finalize_ext [OF wi_copies_kept, where a = w and w = w]) (simp_all add: copies_kept_def)

section \<open>Lemmas: replace, revoke\<close>



lemma replace_frame:
  assumes "replace par k v w = (x, w')"
  shows "dstates w' = dstates w \<and> scopes w' = scopes w \<and> events w' = events w
         \<and> (\<forall>y. dstate (heap w' y) = dstate (heap w y) \<and> kind (heap w' y) = kind (heap w y))"
  using assms by (auto simp: replace_def updObj_def split: val.splits if_splits)

lemma replace_draftStateOf: "replace par k v w = (x, w') \<Longrightarrow> draftStateOf d w' = draftStateOf d w"
  using replace_frame [of par k v w x w'] by (cases d) (simp_all add: draftStateOf_def)

lemma revokeDraft_frame:
  "heap (revokeDraft d w) = heap w \<and> scopes (revokeDraft d w) = scopes w"
  by (simp add: revokeDraft_def updState_def split: option.splits)

lemma fold_revokeDraft_frame:
  "heap (fold revokeDraft ds w) = heap w \<and> scopes (fold revokeDraft ds w) = scopes w"
  by (induction ds arbitrary: w) (simp_all add: revokeDraft_frame)

lemma revokeDraft_revoked:
  "revoked (dstates (revokeDraft d w) s) = (revoked (dstates w s) \<or> draftStateOf d w = Some s)"
  by (auto simp: revokeDraft_def updState_def split: option.splits)

lemma draftStateOf_heap: "heap w' = heap w \<Longrightarrow> draftStateOf d w' = draftStateOf d w"
  by (cases d) (simp_all add: draftStateOf_def)

lemma fold_revokeDraft_revoked:
  "revoked (dstates (fold revokeDraft ds w) s)
     = (revoked (dstates w s) \<or> (\<exists>d\<in>set ds. draftStateOf d w = Some s))"
proof (induction ds arbitrary: w)
  case Nil
  then show ?case by simp
next
  case (Cons d ds)
  have "draftStateOf d' (revokeDraft d w) = draftStateOf d' w" for d'
    by (rule draftStateOf_heap) (simp add: revokeDraft_frame)
  then show ?case
    using Cons.IH [of "revokeDraft d w"] by (auto simp: revokeDraft_revoked)
qed

lemma leave_frame:
  "heap (leave sc w) = heap w \<and> dstates (leave sc w) = dstates w \<and> scopes (leave sc w) = scopes w"
  by (simp add: leave_def)

lemma revoke_drafts: "drafts (scopes (revoke sc w) sc) = None"
  by (simp add: revoke_def Let_def updScope_def)

lemma revoke_scopes:
  "scopes (revoke sc w) sc' = (if sc' = sc then (scopes w sc)\<lparr>drafts := None\<rparr> else scopes w sc')"
  by (simp add: revoke_def Let_def updScope_def fold_revokeDraft_frame leave_frame)

lemma revoke_revoked:
  assumes "drafts (scopes w sc) = Some ds" and "d \<in> set ds" and "draftStateOf d w = Some s"
  shows "revoked (dstates (revoke sc w) s)"
proof -
  have "draftStateOf d (leave sc w) = Some s"
    using assms(3) draftStateOf_heap [of "leave sc w" w d] by (simp add: leave_frame)
  then show ?thesis
    using assms(1,2)
    by (auto simp: revoke_def Let_def updScope_def fold_revokeDraft_revoked leave_frame)
qed

section \<open>Lemmas: finalizeTree, freeze, produce\<close>

lemma freeze_freezes:
  assumes "isDraftable v w" and "\<not> isDraft v w"
  shows "isFrozen v (freeze v deep w)"
proof -
  obtain a where v: "v = VRef a"
    using assms(1) by (cases v) (simp_all add: isDraftable_def isPlainObject_def isArray_def isMap_def
        isSet_def kindOf_def)
  show ?thesis
  proof (cases "isFrozen v w")
    case True
    then show ?thesis
      using freeze_frozen_only [of w v deep] v by (simp add: isFrozen_def frozen_only_def)
  next
    case False
    let ?w1 = "updObj a (\<lambda>ob. ob\<lparr>frozen := True\<rparr>) w"
    have keep: "frozen (heap (freezeFuel n c dp w') a)" if "frozen (heap w' a)" for n c dp w'
      using that
      by (rule freezeFuel_pres [where P = "\<lambda>x. frozen (heap x a)", rotated]) (simp add: updObj_def)
    have "frozen (heap (fold (\<lambda>c w'. freezeFuel n c True w') cs ?w1) a)" for n cs
      by (rule fold_pres [where P = "\<lambda>x. frozen (heap x a)"]) (use keep in \<open>simp_all add: updObj_def\<close>)
    then show ?thesis
      using assms False v by (simp add: freeze_def isFrozen_def Let_def updObj_def)
  qed
qed


lemma produce_draftable_sync:
  assumes "argIsFunction recipe"
    and "l = Passed VUndefined \<or> listenerIsFunction l"
    and "isDraftable b w"
    and "enter w = (sc, wa)"
    and "createProxy I b None wa = (Ret proxy, wb)"
    and "callArg C recipe [proxy] wb = (Ret result, wc)"
    and "\<not> isPromise result"
  shows "produce C I n b recipe l w =
           (case processResult C I n result sc (usePatches sc l (leave sc wc)) of
              None \<Rightarrow> None
            | Some (Threw e, w4) \<Rightarrow> Some (Threw e, w4)
            | Some (Ret r, w4) \<Rightarrow> Some (Ret (Produced r), w4))"
  using assms by (auto simp: produce_def)

section \<open>Claims\<close>




text \<open>
  C2. When the recipe's result is defined and not the root draft, and the root draft's
  state is modified (as \<^verbatim>\<open>willFinalize\<close> leaves it), \<^verbatim>\<open>processResult\<close> throws
  \<^verbatim>\<open>RecipeReturnedValueAndMutated\<close>, for any fuel, and leaves the scope revoked: the
  scope has no drafts any more, and every draft it had is revoked. No result is
  returned. \<^verbatim>\<open>produce\<close>, which hands the recipe's result to \<^verbatim>\<open>processResult\<close>, fails
  with the same error in the same world.
\<close>

theorem processResult_replaced_and_modified:
  assumes "baseDraftOf sc w = Ret baseDraft"
    and "result \<noteq> VUndefined"
    and "result \<noteq> baseDraft"
    and "w1 = willFinalize C I sc result True w"
    and "draftStateOf baseDraft w1 = Some s"
    and "modified (dstates w1 s)"
  shows "processResult C I n result sc w = Some (Threw RecipeReturnedValueAndMutated, revoke sc w1)
         \<and> drafts (scopes (revoke sc w1) sc) = None
         \<and> (\<forall>ds d s'. drafts (scopes w1 sc) = Some ds \<and> d \<in> set ds \<and> draftStateOf d w1 = Some s'
              \<longrightarrow> revoked (dstates (revoke sc w1) s'))
         \<and> (argIsFunction recipe \<and> (l = Passed VUndefined \<or> listenerIsFunction l) \<and> isDraftable b w0
              \<and> enter w0 = (sc, wa) \<and> createProxy I b None wa = (Ret proxy, wb)
              \<and> callArg C recipe [proxy] wb = (Ret result, wc) \<and> \<not> isPromise result
              \<and> w = usePatches sc l (leave sc wc)
            \<longrightarrow> produce C I n b recipe l w0 = Some (Threw RecipeReturnedValueAndMutated, revoke sc w1))"
proof -
  have pr: "processResult C I n result sc w = Some (Threw RecipeReturnedValueAndMutated, revoke sc w1)"
    using assms by (simp add: processResult_def Let_def readDraftState_Some)
  have "produce C I n b recipe l w0 = Some (Threw RecipeReturnedValueAndMutated, revoke sc w1)"
    if "argIsFunction recipe" "l = Passed VUndefined \<or> listenerIsFunction l" "isDraftable b w0"
      "enter w0 = (sc, wa)" "createProxy I b None wa = (Ret proxy, wb)"
      "callArg C recipe [proxy] wb = (Ret result, wc)" "\<not> isPromise result"
      "w = usePatches sc l (leave sc wc)"
    using produce_draftable_sync [OF that(1-7), of n] pr that(8) by simp
  then show ?thesis
    using pr revoke_drafts revoke_revoked by blast
qed

theorem processResult_replaced_and_modified_witness:
  "baseDraftOf 0 exW = Ret (VRef 3) \<and> VNum 5 \<noteq> VUndefined \<and> VNum 5 \<noteq> VRef 3
   \<and> draftStateOf (VRef 3) (willFinalize exC exI 0 (VNum 5) True exW) = Some 0
   \<and> modified (dstates (willFinalize exC exI 0 (VNum 5) True exW) 0)
   \<and> processResult exC exI 0 (VNum 5) 0 exW
       = Some (Threw RecipeReturnedValueAndMutated, revoke 0 (willFinalize exC exI 0 (VNum 5) True exW))
   \<and> drafts (scopes (revoke 0 (willFinalize exC exI 0 (VNum 5) True exW)) 0) = None
   \<and> revoked (dstates (revoke 0 (willFinalize exC exI 0 (VNum 5) True exW)) 1)
   \<and> (\<exists>w'. produce exC exI 0 (VRef 0) (Passed_value (VFun 4)) (Passed VUndefined) exP
              = Some (Threw RecipeReturnedValueAndMutated, w')
            \<and> drafts (scopes w' 0) = None \<and> revoked (dstates w' 0))"
proof -
  let ?w1 = "willFinalize exC exI 0 (VNum 5) True exW"
  have a: "baseDraftOf 0 exW = Ret (VRef 3)" by code_simp
  have b: "draftStateOf (VRef 3) ?w1 = Some 0" by code_simp
  have c: "modified (dstates ?w1 0)" by code_simp
  have d: "drafts (scopes ?w1 0) = Some [VRef 3, VRef 5, VRef 7]" by code_simp
  have e: "draftStateOf (VRef 5) ?w1 = Some 1" by code_simp
  have n1: "VNum 5 \<noteq> VUndefined" and n2: "VNum 5 \<noteq> VRef 3" and n3: "VNum 5 \<noteq> VRef 1" by simp_all
  note t = processResult_replaced_and_modified [OF a n1 n2 refl b c, where n = 0
      and recipe = "Passed_value (VFun 4)" and l = "Passed VUndefined" and b = "VRef 0" and ?w0.0 = exP
      and wa = exP and proxy = "VRef 1" and wb = exP and wc = exP]
  note tA = t [THEN conjunct1]
  note tB = t [THEN conjunct2, THEN conjunct1]
  note tC = t [THEN conjunct2, THEN conjunct2, THEN conjunct1]
  have "VRef 5 \<in> set [VRef 3, VRef 5, VRef 7]" by simp
  then have r1: "revoked (dstates (revoke 0 ?w1) 1)"
    using tC d e by blast
  let ?wa = "snd (enter exP)"
  let ?wb = "snd (createProxy exI (VRef 0) None ?wa)"
  let ?wc = "snd (callArg exC (Passed_value (VFun 4)) [VRef 1] ?wb)"
  let ?w = "usePatches 0 (Passed VUndefined) (leave 0 ?wc)"
  let ?w1' = "willFinalize exC exI 0 (VNum 5) True ?w"
  have p1: "argIsFunction (Passed_value (VFun 4))" by (simp add: argIsFunction_def isFunction_def)
  have p2: "isDraftable (VRef 0) exP" by code_simp
  have "fst (enter exP) = 0" by code_simp
  then have p3: "enter exP = (0, ?wa)" by (metis prod.collapse)
  have "fst (createProxy exI (VRef 0) None ?wa) = Ret (VRef 1)" by code_simp
  then have p4: "createProxy exI (VRef 0) None ?wa = (Ret (VRef 1), ?wb)" by (metis prod.collapse)
  have "fst (callArg exC (Passed_value (VFun 4)) [VRef 1] ?wb) = Ret (VNum 5)" by code_simp
  then have p5: "callArg exC (Passed_value (VFun 4)) [VRef 1] ?wb = (Ret (VNum 5), ?wc)" by (metis prod.collapse)
  have p6: "\<not> isPromise (VNum 5)" by (simp add: isPromise_def)
  have q1: "baseDraftOf 0 ?w = Ret (VRef 1)" by code_simp
  have q2: "draftStateOf (VRef 1) ?w1' = Some 0" by code_simp
  have q3: "modified (dstates ?w1' 0)" by code_simp
  have q4: "drafts (scopes ?w1' 0) = Some [VRef 1]" by code_simp
  note u = processResult_replaced_and_modified [OF q1 n1 n3 refl q2 q3, where n = 0
      and recipe = "Passed_value (VFun 4)" and l = "Passed VUndefined" and b = "VRef 0" and ?w0.0 = exP
      and wa = ?wa and proxy = "VRef 1" and wb = ?wb and wc = ?wc]
  note uB = u [THEN conjunct2, THEN conjunct1]
  note uC = u [THEN conjunct2, THEN conjunct2, THEN conjunct1]
  note uD = u [THEN conjunct2, THEN conjunct2, THEN conjunct2]
  have u1: "produce exC exI 0 (VRef 0) (Passed_value (VFun 4)) (Passed VUndefined) exP
              = Some (Threw RecipeReturnedValueAndMutated, revoke 0 ?w1')"
    using uD p1 p2 p3 p4 p5 p6 by simp
  have "VRef 1 \<in> set [VRef 1]" by simp
  then have u3: "revoked (dstates (revoke 0 ?w1') 0)"
    using uC q4 q2 by blast
  show ?thesis using tA tB a b c r1 u1 uB u3 by simp
qed

text \<open>
  C3, at the input where the code departs from it. The test of lines 397--399 compares
  a child with the node that holds it and throws \<^verbatim>\<open>CircularReferenceDetected\<close> when
  they are the same, whatever the key, the context and the (positive) fuel; so the
  production of \<open>exS\<close>, whose recipe returned a new object that refers to itself, fails
  with that error. In \<open>exD\<close> the recipe stored the draft under itself,
  \<^verbatim>\<open>draft.self = draft\<close>. The walk of a draft goes over the copy of its state (line
  392), so the pair visited is the key \<^verbatim>\<open>self\<close> and the draft, held by the copy 2: the
  draft is not the copy, and the test does not fire. The draft, flagged finalized
  already, is resolved to the copy, the copy is written back into itself, and the
  production returns, without any error, the copy, whose \<^verbatim>\<open>self\<close> is the copy: the
  cycle is silently resolved.
\<close>

theorem circular_reference_of_draft_not_detected:
  "finalizeProperty fin I (Suc n) st root rootPath needPatches sc k v v w
     = Some (Threw CircularReferenceDetected, w)
   \<and> get (VRef 2) (VStr ''self'') exS = VRef 2
   \<and> map_option fst (processResult exC exI 2 (VRef 2) 0 exS) = Some (Threw CircularReferenceDetected)
   \<and> draftStateOf (VRef 1) exD = Some 0 \<and> copy (dstates exD 0) = VRef 2
   \<and> get (VRef 2) (VStr ''self'') exD = VRef 1
   \<and> (case processResult exC exI 2 VUndefined 0 exD of
         Some (Ret r, w') \<Rightarrow> r = VRef 2 \<and> get r (VStr ''self'') w' = r
       | _ \<Rightarrow> False)"
proof -
  have a: "finalizeProperty fin I (Suc n) st root rootPath needPatches sc k v v w
     = Some (Threw CircularReferenceDetected, w)"
    by (simp add: finalizeProperty_Suc finalizeProperty_body_def)
  have b: "get (VRef 2) (VStr ''self'') exS = VRef 2
   \<and> map_option fst (processResult exC exI 2 (VRef 2) 0 exS) = Some (Threw CircularReferenceDetected)
   \<and> draftStateOf (VRef 1) exD = Some 0 \<and> copy (dstates exD 0) = VRef 2
   \<and> get (VRef 2) (VStr ''self'') exD = VRef 1
   \<and> (case processResult exC exI 2 VUndefined 0 exD of
         Some (Ret r, w') \<Rightarrow> r = VRef 2 \<and> get r (VStr ''self'') w' = r
       | _ \<Rightarrow> False)"
    by code_simp
  show ?thesis using a b by blast
qed

text \<open>
  C4, at the input where the code departs from it: the draft 1 of \<open>exN\<close> is the value
  of a root-level replace patch that comes after another patch. The scan makes the
  draft the new base and stops at index 1, so no patch remains after it; the code
  passes both patches to the patch engine, applied to the draft.
\<close>

theorem applyPatches_draft_replacement_gets_all_patches:
  "isDraft (VRef 1) exN
   \<and> findReplace [\<lparr>op = Add, path = [VStr ''b''], pvalue = VNum 2\<rparr>, \<lparr>op = Replace, path = [], pvalue = VRef 1\<rparr>]
        2 (VRef 0) = (1, VRef 1)
   \<and> drop (nat (1 + 1))
        [\<lparr>op = Add, path = [VStr ''b''], pvalue = VNum 2\<rparr>, \<lparr>op = Replace, path = [], pvalue = VRef 1\<rparr>] = []
   \<and> applyPatches C I n (VRef 0)
        [\<lparr>op = Add, path = [VStr ''b''], pvalue = VNum 2\<rparr>, \<lparr>op = Replace, path = [], pvalue = VRef 1\<rparr>] exN
      = (case patches_applyPatches C (VRef 1)
                [\<lparr>op = Add, path = [VStr ''b''], pvalue = VNum 2\<rparr>, \<lparr>op = Replace, path = [], pvalue = VRef 1\<rparr>] exN of
           (Threw e, w1) \<Rightarrow> Some (Threw e, w1)
         | (Ret r, w1) \<Rightarrow> Some (Ret (Produced r), w1))"
proof -
  have a: "isDraft (VRef 1) exN" by code_simp
  have b: "findReplace [\<lparr>op = Add, path = [VStr ''b''], pvalue = VNum 2\<rparr>, \<lparr>op = Replace, path = [], pvalue = VRef 1\<rparr>]
        2 (VRef 0) = (1, VRef 1)"
    by code_simp
  show ?thesis using a b by (simp add: applyPatches_def)
qed

text \<open>
  C5, as the code has it. When the recipe's result replaces the root (it is defined
  and not the root draft), the root draft is not modified, and the result is draftable,
  \<^verbatim>\<open>processResult\<close> finalizes the result (with no patch path), whether a listener is
  registered or not. When the finalization throws, \<^verbatim>\<open>processResult\<close> throws the same
  error in the world the finalization left: nothing more is frozen, no patch is
  recorded, no listener is called. When it runs out of fuel, so does \<^verbatim>\<open>processResult\<close>.
  When it returns, \<^verbatim>\<open>maybeFreeze\<close> is applied to what it returned: with \<^verbatim>\<open>autoFreeze\<close>
  on, a draftable result that is not a draft is frozen; otherwise the heap is left as
  it is. The finalization adds nothing to the patch lists. Without patch lists (no
  listener was registered), nothing is recorded and the result is returned after the
  scope is revoked. With patch lists, exactly one patch
  \<^verbatim>\<open>{op: "replace", path: [], value: result}\<close> and one inverse patch
  \<^verbatim>\<open>{op: "replace", path: [], value: base}\<close>, with the base of the root draft, are
  appended, and the listener is called with these lists after the scope is revoked.
\<close>

theorem processResult_replaced_draftable:
  assumes "baseDraftOf sc w = Ret baseDraft"
    and "result \<noteq> VUndefined"
    and "result \<noteq> baseDraft"
    and "w1 = willFinalize C I sc result True w"
    and "draftStateOf baseDraft w1 = Some s"
    and "\<not> modified (dstates w1 s)"
    and "isDraftable result w1"
  shows "processResult C I n result sc w =
           (case finalize C I n result None sc w1 of
              None \<Rightarrow> None
            | Some (Threw e, w2) \<Rightarrow> Some (Threw e, w2)
            | Some (Ret r, w2) \<Rightarrow>
                Some (finishResult r sc
                        (pushReplacePatches sc r (base (dstates w1 s)) (maybeFreeze I r False w2))))
         \<and> (finalize C I n result None sc w1 = Some (Ret r, w2)
              \<and> w3 = pushReplacePatches sc r (base (dstates w1 s)) (maybeFreeze I r False w2)
            \<longrightarrow> (autoFreeze I \<and> isDraftable r w2 \<and> \<not> isDraft r w2 \<longrightarrow> isFrozen r w3)
              \<and> (\<not> autoFreeze I \<or> isDraft r w2 \<longrightarrow> heap w3 = heap w2)
              \<and> patches (scopes w2 sc) = patches (scopes w1 sc)
              \<and> inversePatches (scopes w2 sc) = inversePatches (scopes w1 sc)
              \<and> (patches (scopes w1 sc) = None \<longrightarrow>
                   scopes w3 = scopes w2
                   \<and> finishResult r sc w3 = (Ret (if r \<noteq> VNothing then r else VUndefined), revoke sc w3))
              \<and> (patches (scopes w1 sc) = Some ps \<and> inversePatches (scopes w1 sc) = Some ips \<longrightarrow>
                   patches (scopes w3 sc) = Some (ps @ [\<lparr>op = Replace, path = [], pvalue = r\<rparr>])
                   \<and> inversePatches (scopes w3 sc)
                       = Some (ips @ [\<lparr>op = Replace, path = [], pvalue = base (dstates w1 s)\<rparr>])
                   \<and> finishResult r sc w3 =
                       (case callPatchListener (patchListener (scopes w1 sc))
                               (ps @ [\<lparr>op = Replace, path = [], pvalue = r\<rparr>])
                               (ips @ [\<lparr>op = Replace, path = [], pvalue = base (dstates w1 s)\<rparr>])
                               (revoke sc w3) of
                          (Threw e, w5) \<Rightarrow> (Threw e, w5)
                        | (Ret u, w5) \<Rightarrow> (Ret (if r \<noteq> VNothing then r else VUndefined), w5))))"
proof -
  have eq: "processResult C I n result sc w =
           (case finalize C I n result None sc w1 of
              None \<Rightarrow> None
            | Some (Threw e, w2) \<Rightarrow> Some (Threw e, w2)
            | Some (Ret r, w2) \<Rightarrow>
                Some (finishResult r sc
                        (pushReplacePatches sc r (base (dstates w1 s)) (maybeFreeze I r False w2))))"
  proof (cases "finalize C I n result None sc w1")
    case None
    then show ?thesis
      using assms by (simp add: processResult_def Let_def readDraftState_Some)
  next
    case (Some p)
    obtain x w2 where p: "p = (x, w2)" by (cases p)
    show ?thesis
    proof (cases x)
      case (Threw e)
      then show ?thesis
        using assms Some p by (simp add: processResult_def Let_def readDraftState_Some)
    next
      case (Ret r)
      have "states_kept w1 w2" using Some p by (auto intro: finalize_states_kept)
      then have "base (dstates w2 s) = base (dstates w1 s)" by (simp add: states_kept_def)
      moreover have "dstates (maybeFreeze I r False w2) = dstates w2"
        using maybeFreeze_frozen_only [of w2 I r False] by (simp add: frozen_only_def)
      ultimately show ?thesis
        using assms Some p Ret by (simp add: processResult_def Let_def readDraftState_Some)
    qed
  qed
  have rest: "(autoFreeze I \<and> isDraftable r w2 \<and> \<not> isDraft r w2 \<longrightarrow> isFrozen r w3)
              \<and> (\<not> autoFreeze I \<or> isDraft r w2 \<longrightarrow> heap w3 = heap w2)
              \<and> patches (scopes w2 sc) = patches (scopes w1 sc)
              \<and> inversePatches (scopes w2 sc) = inversePatches (scopes w1 sc)
              \<and> (patches (scopes w1 sc) = None \<longrightarrow>
                   scopes w3 = scopes w2
                   \<and> finishResult r sc w3 = (Ret (if r \<noteq> VNothing then r else VUndefined), revoke sc w3))
              \<and> (patches (scopes w1 sc) = Some ps \<and> inversePatches (scopes w1 sc) = Some ips \<longrightarrow>
                   patches (scopes w3 sc) = Some (ps @ [\<lparr>op = Replace, path = [], pvalue = r\<rparr>])
                   \<and> inversePatches (scopes w3 sc)
                       = Some (ips @ [\<lparr>op = Replace, path = [], pvalue = base (dstates w1 s)\<rparr>])
                   \<and> finishResult r sc w3 =
                       (case callPatchListener (patchListener (scopes w1 sc))
                               (ps @ [\<lparr>op = Replace, path = [], pvalue = r\<rparr>])
                               (ips @ [\<lparr>op = Replace, path = [], pvalue = base (dstates w1 s)\<rparr>])
                               (revoke sc w3) of
                          (Threw e, w5) \<Rightarrow> (Threw e, w5)
                        | (Ret u, w5) \<Rightarrow> (Ret (if r \<noteq> VNothing then r else VUndefined), w5)))"
    if fin: "finalize C I n result None sc w1 = Some (Ret r, w2)"
      and w3: "w3 = pushReplacePatches sc r (base (dstates w1 s)) (maybeFreeze I r False w2)"
  proof -
    let ?wf = "maybeFreeze I r False w2"
    have sk: "scopes_kept w1 w2" using fin by (rule finalize_scopes_kept)
    have fo: "frozen_only w2 ?wf" by (rule maybeFreeze_frozen_only)
    have p2: "patches (scopes w2 sc) = patches (scopes w1 sc)"
      "inversePatches (scopes w2 sc) = inversePatches (scopes w1 sc)"
      "patchListener (scopes w2 sc) = patchListener (scopes w1 sc)"
      using sk by (simp_all add: scopes_kept_def)
    have pf: "scopes ?wf = scopes w2" using fo by (simp add: frozen_only_def)
    have h3: "heap w3 = heap ?wf"
      using w3 by (simp add: pushReplacePatches_def updScope_def split: option.splits)
    have fz: "isFrozen r w3" if af: "autoFreeze I" and da: "isDraftable r w2" and nd: "\<not> isDraft r w2"
    proof -
      obtain a where r: "r = VRef a"
        using da by (cases r) (simp_all add: isDraftable_def isPlainObject_def isArray_def isMap_def
            isSet_def kindOf_def)
      have "frozen (heap (freeze r False w2) a)"
        using af da nd r by (simp add: freeze_def isFrozen_def updObj_def Let_def)
      then show ?thesis
        using af nd r h3 by (simp add: isFrozen_def maybeFreeze_def)
    qed
    have nf: "heap w3 = heap w2" if "\<not> autoFreeze I \<or> isDraft r w2"
      using that h3 by (auto simp: maybeFreeze_def)
    have none: "scopes w3 = scopes w2
                \<and> finishResult r sc w3 = (Ret (if r \<noteq> VNothing then r else VUndefined), revoke sc w3)"
      if "patches (scopes w1 sc) = None"
      using that p2 pf w3 by (simp add: pushReplacePatches_def finishResult_def Let_def revoke_scopes)
    have some: "patches (scopes w3 sc) = Some (ps @ [\<lparr>op = Replace, path = [], pvalue = r\<rparr>])
                   \<and> inversePatches (scopes w3 sc)
                       = Some (ips @ [\<lparr>op = Replace, path = [], pvalue = base (dstates w1 s)\<rparr>])
                   \<and> finishResult r sc w3 =
                       (case callPatchListener (patchListener (scopes w1 sc))
                               (ps @ [\<lparr>op = Replace, path = [], pvalue = r\<rparr>])
                               (ips @ [\<lparr>op = Replace, path = [], pvalue = base (dstates w1 s)\<rparr>])
                               (revoke sc w3) of
                          (Threw e, w5) \<Rightarrow> (Threw e, w5)
                        | (Ret u, w5) \<Rightarrow> (Ret (if r \<noteq> VNothing then r else VUndefined), w5))"
      if "patches (scopes w1 sc) = Some ps" and "inversePatches (scopes w1 sc) = Some ips"
    proof -
      have p3: "patches (scopes w3 sc) = Some (ps @ [\<lparr>op = Replace, path = [], pvalue = r\<rparr>])"
        "inversePatches (scopes w3 sc) = Some (ips @ [\<lparr>op = Replace, path = [], pvalue = base (dstates w1 s)\<rparr>])"
        "patchListener (scopes w3 sc) = patchListener (scopes w1 sc)"
        using that p2 pf w3 by (simp_all add: pushReplacePatches_def updScope_def)
      then show ?thesis
        by (simp add: finishResult_def Let_def revoke_scopes)
    qed
    show ?thesis using fz nf p2(1,2) none some by blast
  qed
  show ?thesis using eq rest by blast
qed

theorem processResult_replaced_draftable_witness:
  "baseDraftOf 0 exR = Ret (VRef 1) \<and> VRef 4 \<noteq> VUndefined \<and> VRef 4 \<noteq> VRef 1
   \<and> draftStateOf (VRef 1) (willFinalize exC exI 0 (VRef 4) True exR) = Some 0
   \<and> \<not> modified (dstates (willFinalize exC exI 0 (VRef 4) True exR) 0)
   \<and> isDraftable (VRef 4) (willFinalize exC exI 0 (VRef 4) True exR)
   \<and> patches (scopes (willFinalize exC exI 0 (VRef 4) True exR) 0) = Some []
   \<and> inversePatches (scopes (willFinalize exC exI 0 (VRef 4) True exR) 0) = Some []
   \<and> (\<exists>w2. finalize exC exI 3 (VRef 4) None 0 (willFinalize exC exI 0 (VRef 4) True exR) = Some (Ret (VRef 4), w2)
          \<and> patches (scopes (pushReplacePatches 0 (VRef 4) (VRef 0) (maybeFreeze exI (VRef 4) False w2)) 0)
              = Some [\<lparr>op = Replace, path = [], pvalue = VRef 4\<rparr>]
          \<and> inversePatches (scopes (pushReplacePatches 0 (VRef 4) (VRef 0) (maybeFreeze exI (VRef 4) False w2)) 0)
              = Some [\<lparr>op = Replace, path = [], pvalue = VRef 0\<rparr>]
          \<and> isFrozen (VRef 4) (pushReplacePatches 0 (VRef 4) (VRef 0) (maybeFreeze exI (VRef 4) False w2))
          \<and> processResult exC exI 3 (VRef 4) 0 exR =
               Some (case callPatchListener (Capture 0)
                        [\<lparr>op = Replace, path = [], pvalue = VRef 4\<rparr>]
                        [\<lparr>op = Replace, path = [], pvalue = VRef 0\<rparr>]
                        (revoke 0 (pushReplacePatches 0 (VRef 4) (VRef 0) (maybeFreeze exI (VRef 4) False w2))) of
                   (Threw e, w5) \<Rightarrow> (Threw e, w5)
                 | (Ret u, w5) \<Rightarrow> (Ret (VRef 4), w5)))
   \<and> baseDraftOf 0 (usePatches 0 (Capture 0) exS) = Ret (VRef 1) \<and> VRef 2 \<noteq> VUndefined \<and> VRef 2 \<noteq> VRef 1
   \<and> draftStateOf (VRef 1) (willFinalize exC exI 0 (VRef 2) True (usePatches 0 (Capture 0) exS)) = Some 0
   \<and> \<not> modified (dstates (willFinalize exC exI 0 (VRef 2) True (usePatches 0 (Capture 0) exS)) 0)
   \<and> isDraftable (VRef 2) (willFinalize exC exI 0 (VRef 2) True (usePatches 0 (Capture 0) exS))
   \<and> (\<exists>w2. processResult exC exI 3 (VRef 2) 0 (usePatches 0 (Capture 0) exS)
             = Some (Threw CircularReferenceDetected, w2)
           \<and> \<not> isFrozen (VRef 2) w2 \<and> patches (scopes w2 0) = Some [])"
proof -
  let ?w1 = "willFinalize exC exI 0 (VRef 4) True exR"
  have a: "baseDraftOf 0 exR = Ret (VRef 1)" by code_simp
  have b: "draftStateOf (VRef 1) ?w1 = Some 0" by code_simp
  have c: "\<not> modified (dstates ?w1 0)" by code_simp
  have d: "isDraftable (VRef 4) ?w1" by code_simp
  have e: "patches (scopes ?w1 0) = Some []" by code_simp
  have f: "inversePatches (scopes ?w1 0) = Some []" by code_simp
  have g: "base (dstates ?w1 0) = VRef 0" by code_simp
  have h: "patchListener (scopes ?w1 0) = Capture 0" by code_simp
  have af: "autoFreeze exI" by code_simp
  have "case finalize exC exI 3 (VRef 4) None 0 ?w1 of
          Some (Ret r, w2) \<Rightarrow> r = VRef 4 \<and> isDraftable (VRef 4) w2 \<and> \<not> isDraft (VRef 4) w2
        | _ \<Rightarrow> False"
    by code_simp
  then obtain w2 where fin: "finalize exC exI 3 (VRef 4) None 0 ?w1 = Some (Ret (VRef 4), w2)"
    and i: "isDraftable (VRef 4) w2" and j: "\<not> isDraft (VRef 4) w2"
    by (auto split: option.splits prod.splits outcome.splits)
  note t = processResult_replaced_draftable [OF a _ _ refl b c d, where n = 3 and r = "VRef 4" and ?w2.0 = w2
      and ps = "[]" and ips = "[]"
      and ?w3.0 = "pushReplacePatches 0 (VRef 4) (VRef 0) (maybeFreeze exI (VRef 4) False w2)"]
  have t1: "processResult exC exI 3 (VRef 4) 0 exR =
              Some (finishResult (VRef 4) 0
                      (pushReplacePatches 0 (VRef 4) (VRef 0) (maybeFreeze exI (VRef 4) False w2)))"
    using t [THEN conjunct1] fin g by simp
  note t2 = t [THEN conjunct2, rule_format]
  have first: "\<exists>w2. finalize exC exI 3 (VRef 4) None 0 ?w1 = Some (Ret (VRef 4), w2)
          \<and> patches (scopes (pushReplacePatches 0 (VRef 4) (VRef 0) (maybeFreeze exI (VRef 4) False w2)) 0)
              = Some [\<lparr>op = Replace, path = [], pvalue = VRef 4\<rparr>]
          \<and> inversePatches (scopes (pushReplacePatches 0 (VRef 4) (VRef 0) (maybeFreeze exI (VRef 4) False w2)) 0)
              = Some [\<lparr>op = Replace, path = [], pvalue = VRef 0\<rparr>]
          \<and> isFrozen (VRef 4) (pushReplacePatches 0 (VRef 4) (VRef 0) (maybeFreeze exI (VRef 4) False w2))
          \<and> processResult exC exI 3 (VRef 4) 0 exR =
               Some (case callPatchListener (Capture 0)
                        [\<lparr>op = Replace, path = [], pvalue = VRef 4\<rparr>]
                        [\<lparr>op = Replace, path = [], pvalue = VRef 0\<rparr>]
                        (revoke 0 (pushReplacePatches 0 (VRef 4) (VRef 0) (maybeFreeze exI (VRef 4) False w2))) of
                   (Threw e, w5) \<Rightarrow> (Threw e, w5)
                 | (Ret u, w5) \<Rightarrow> (Ret (VRef 4), w5))"
    using t1 t2 fin g h e f af i j by (intro exI [of _ w2]) simp
  let ?v = "usePatches 0 (Capture 0) exS"
  let ?v1 = "willFinalize exC exI 0 (VRef 2) True ?v"
  have a': "baseDraftOf 0 ?v = Ret (VRef 1)" by code_simp
  have b': "draftStateOf (VRef 1) ?v1 = Some 0" by code_simp
  have c': "\<not> modified (dstates ?v1 0)" by code_simp
  have d': "isDraftable (VRef 2) ?v1" by code_simp
  have "case finalize exC exI 3 (VRef 2) None 0 ?v1 of
          Some (Threw e, w2) \<Rightarrow> e = CircularReferenceDetected \<and> \<not> isFrozen (VRef 2) w2 \<and> patches (scopes w2 0) = Some []
        | _ \<Rightarrow> False"
    by code_simp
  then obtain v2 where fin': "finalize exC exI 3 (VRef 2) None 0 ?v1 = Some (Threw CircularReferenceDetected, v2)"
    and i': "\<not> isFrozen (VRef 2) v2" and j': "patches (scopes v2 0) = Some []"
    by (auto split: option.splits prod.splits outcome.splits)
  note u = processResult_replaced_draftable [OF a' _ _ refl b' c' d', where n = 3]
  have second: "\<exists>w2. processResult exC exI 3 (VRef 2) 0 ?v = Some (Threw CircularReferenceDetected, w2)
           \<and> \<not> isFrozen (VRef 2) w2 \<and> patches (scopes w2 0) = Some []"
    using u [THEN conjunct1] fin' i' j' by simp
  show ?thesis
    using a b c d e f first a' b' c' d' second by simp
qed

text \<open>
  C5 as stated speaks of every replaced result that is draftable. In \<open>exW\<close> the root
  draft is modified; when the recipe also returns the draftable object 2,
  \<^verbatim>\<open>processResult\<close> throws (lines 252--255 come first): the result is neither finalized
  nor frozen, and no patch is recorded.
\<close>

theorem replaced_draftable_result_of_modified_root_throws:
  "baseDraftOf 0 exW = Ret (VRef 3) \<and> VRef 2 \<noteq> VUndefined \<and> VRef 2 \<noteq> VRef 3
   \<and> isDraftable (VRef 2) exW \<and> modified (dstates exW 0)
   \<and> (case processResult exC exI 3 (VRef 2) 0 exW of
         Some (Threw e, w') \<Rightarrow> e = RecipeReturnedValueAndMutated \<and> \<not> isFrozen (VRef 2) w'
       | _ \<Rightarrow> False)"
  by code_simp

text \<open>
  C6. A draft whose state belongs to another scope than the one being finalized is
  returned by \<^verbatim>\<open>finalize\<close> as it is, and the world is unchanged (its state is not
  consumed). When the tree walk meets such a draft under a parent and writes it back,
  the scope being finalized has \<^verbatim>\<open>canAutoFreeze = false\<close> afterwards.
\<close>

theorem finalize_foreign_draft_unresolved:
  assumes "draftStateOf d w = Some s"
    and "scope (dstates w s) \<noteq> sc"
  shows "finalize C I (Suc n) d pth sc w = Some (Ret d, w)
         \<and> (d \<noteq> par \<and> replace par k d w = (Ret (), w2)
            \<longrightarrow> (\<exists>w'. finalizeProperty (finalize C I (Suc m)) I (Suc n) st root rootPath needPatches sc k d par w
                        = Some (Ret (), w')
                      \<and> \<not> canAutoFreeze (scopes w' sc) \<and> get par k w' = get par k w2
                      \<and> isDraft d w'))"
proof -
  have fin: "finalize C I (Suc j) d p sc w = Some (Ret d, w)" for j p
    using assms by (simp add: finalize_Suc finalize_body_def readDraftState_Some)
  have walk: "\<exists>w'. finalizeProperty (finalize C I (Suc m)) I (Suc n) st root rootPath needPatches sc k d par w
                        = Some (Ret (), w')
                      \<and> \<not> canAutoFreeze (scopes w' sc) \<and> get par k w' = get par k w2 \<and> isDraft d w'"
    if neq: "d \<noteq> par" and rep: "replace par k d w = (Ret (), w2)"
  proof -
    have dr: "isDraft d w" using assms(1) by (simp add: isDraft_def)
    have dr2: "isDraft d w2"
      using dr replace_draftStateOf [OF rep] by (simp add: isDraft_def)
    let ?w' = "onAssignHook I st (st \<noteq> None \<and> par = root) (isSet par w) k d
                 (updScope sc (\<lambda>x. x\<lparr>canAutoFreeze := False\<rparr>) w2)"
    have run: "finalizeProperty (finalize C I (Suc m)) I (Suc n) st root rootPath needPatches sc k d par w
                 = Some (Ret (), ?w')"
      using neq dr dr2 fin rep by (simp add: finalizeProperty_Suc finalizeProperty_body_def Let_def)
    have sc': "scopes ?w' = (scopes w2)(sc := (scopes w2 sc)\<lparr>canAutoFreeze := False\<rparr>)"
      by (simp add: onAssignHook_def emit_def updScope_def split: option.splits)
    have hp: "heap ?w' = heap w2"
      by (simp add: onAssignHook_def emit_def updScope_def split: option.splits)
    have g: "get par k ?w' = get par k w2"
      using hp by (cases par) (simp_all add: get_def entriesOf_def)
    have d': "isDraft d ?w'"
      using dr2 draftStateOf_heap [OF hp] by (simp add: isDraft_def)
    show ?thesis using run sc' g d' by auto
  qed
  show ?thesis using fin walk by blast
qed

theorem finalize_foreign_draft_unresolved_witness:
  "draftStateOf (VRef 1) exN = Some 0 \<and> scope (dstates exN 0) \<noteq> 1
   \<and> finalize exC exI (Suc 0) (VRef 1) None 1 exN = Some (Ret (VRef 1), exN)
   \<and> VRef 1 \<noteq> VRef 4
   \<and> fst (replace (VRef 4) (VStr ''o'') (VRef 1) exN) = Ret ()
   \<and> (\<exists>w'. finalizeProperty (finalize exC exI (Suc 0)) exI (Suc 0) (Some 1) (VRef 4) (Some []) False 1
               (VStr ''o'') (VRef 1) (VRef 4) exN = Some (Ret (), w')
            \<and> \<not> canAutoFreeze (scopes w' 1) \<and> isDraft (VRef 1) w')"
proof -
  have a: "draftStateOf (VRef 1) exN = Some 0" by code_simp
  have b: "scope (dstates exN 0) \<noteq> 1" by code_simp
  have c: "fst (replace (VRef 4) (VStr ''o'') (VRef 1) exN) = Ret ()" by code_simp
  then have r: "replace (VRef 4) (VStr ''o'') (VRef 1) exN = (Ret (), snd (replace (VRef 4) (VStr ''o'') (VRef 1) exN))"
    by (metis prod.collapse)
  note t = finalize_foreign_draft_unresolved [OF a b, where C = exC and I = exI and n = 0 and pth = None
      and par = "VRef 4" and k = "VStr ''o''" and ?w2.0 = "snd (replace (VRef 4) (VStr ''o'') (VRef 1) exN)"
      and m = 0 and st = "Some 1" and root = "VRef 4" and rootPath = "Some []" and needPatches = False]
  have 1: "finalize exC exI (Suc 0) (VRef 1) None 1 exN = Some (Ret (VRef 1), exN)"
    using t by simp
  have 2: "\<exists>w'. finalizeProperty (finalize exC exI (Suc 0)) exI (Suc 0) (Some 1) (VRef 4) (Some []) False 1
               (VStr ''o'') (VRef 1) (VRef 4) exN = Some (Ret (), w')
            \<and> \<not> canAutoFreeze (scopes w' 1) \<and> isDraft (VRef 1) w'"
    using t r by auto
  show ?thesis using a b c 1 2 by simp
qed

text \<open>
  C7. When the base is not draftable (and the call is not the curried one, and its
  arguments are valid), \<^verbatim>\<open>produce\<close> calls the recipe with the base itself, in the world
  as it is: no scope is opened and no draft is made before the call. If the recipe
  throws, so does \<^verbatim>\<open>produce\<close>. If it returns the sentinel \<^verbatim>\<open>NOTHING\<close>, the result is
  undefined; if it returns undefined, the result is the base; otherwise the result is
  what it returned; in the last two cases \<^verbatim>\<open>maybeFreeze(result, true)\<close> is applied:
  with \<^verbatim>\<open>autoFreeze\<close> on, a draftable result that is not a draft is frozen. After the
  recipe nothing but the frozen flags of objects changes.
\<close>

theorem produce_not_draftable:
  assumes "argIsFunction recipe"
    and "l = Passed VUndefined \<or> listenerIsFunction l"
    and "\<not> isDraftable b w"
    and "callArg C recipe [b] w = (out, w1)"
  shows "produce C I n b recipe l w =
           (case out of
              Threw e \<Rightarrow> Some (Threw e, w1)
            | Ret result \<Rightarrow>
                if result = VNothing then Some (Ret (Produced VUndefined), w1)
                else if result = VUndefined then Some (Ret (Produced b), maybeFreeze I b True w1)
                else Some (Ret (Produced result), maybeFreeze I result True w1))
         \<and> (\<forall>x w'. produce C I n b recipe l w = Some (x, w') \<longrightarrow> frozen_only w1 w')
         \<and> (\<forall>r w'. produce C I n b recipe l w = Some (Ret (Produced r), w')
               \<and> autoFreeze I \<and> isDraftable r w1 \<and> \<not> isDraft r w1 \<longrightarrow> isFrozen r w')"
proof -
  have run: "produce C I n b recipe l w =
           (case out of
              Threw e \<Rightarrow> Some (Threw e, w1)
            | Ret result \<Rightarrow>
                if result = VNothing then Some (Ret (Produced VUndefined), w1)
                else if result = VUndefined then Some (Ret (Produced b), maybeFreeze I b True w1)
                else Some (Ret (Produced result), maybeFreeze I result True w1))"
    using assms by (cases out) (auto simp: produce_def Let_def)
  have fo: "frozen_only w1 w'" if "produce C I n b recipe l w = Some (x, w')" for x w'
    using that run
    by (cases out) (auto simp: maybeFreeze_frozen_only frozen_only_refl split: if_splits)
  have fz: "isFrozen r w'"
    if p: "produce C I n b recipe l w = Some (Ret (Produced r), w')"
      and af: "autoFreeze I" and da: "isDraftable r w1" and nd: "\<not> isDraft r w1" for r w'
  proof -
    have "r \<noteq> VUndefined" using da by (auto simp: isDraftable_def isPlainObject_def isArray_def isMap_def
          isSet_def kindOf_def)
    then have "w' = maybeFreeze I r True w1"
      using p run by (cases out) (auto split: if_splits)
    then show ?thesis
      using af da nd by (simp add: maybeFreeze_def freeze_freezes)
  qed
  show ?thesis using run fo fz by blast
qed

theorem produce_not_draftable_witness:
  "argIsFunction (Passed_value (VFun 2))
   \<and> \<not> isDraftable (VNum 3) exP
   \<and> callArg exC (Passed_value (VFun 2)) [VNum 3] exP = (Ret (VNum 7), exP)
   \<and> produce exC exI 0 (VNum 3) (Passed_value (VFun 2)) (Passed VUndefined) exP
       = Some (Ret (Produced (VNum 7)), maybeFreeze exI (VNum 7) True exP)
   \<and> callArg exC (Passed_value (VFun 0)) [VNum 3] exP = (Ret VNothing, exP)
   \<and> produce exC exI 0 (VNum 3) (Passed_value (VFun 0)) (Passed VUndefined) exP
       = Some (Ret (Produced VUndefined), exP)
   \<and> callArg exC (Passed_value (VFun 1)) [VNum 3] exP = (Ret VUndefined, exP)
   \<and> produce exC exI 0 (VNum 3) (Passed_value (VFun 1)) (Passed VUndefined) exP
       = Some (Ret (Produced (VNum 3)), maybeFreeze exI (VNum 3) True exP)"
proof -
  have a: "argIsFunction (Passed_value (VFun k))" for k by (simp add: argIsFunction_def isFunction_def)
  have b: "\<not> isDraftable (VNum 3) exP" by code_simp
  have c2: "callArg exC (Passed_value (VFun 2)) [VNum 3] exP = (Ret (VNum 7), exP)"
    by (simp add: callArg_def callFn_def exC_def)
  have c0: "callArg exC (Passed_value (VFun 0)) [VNum 3] exP = (Ret VNothing, exP)"
    by (simp add: callArg_def callFn_def exC_def)
  have c1: "callArg exC (Passed_value (VFun 1)) [VNum 3] exP = (Ret VUndefined, exP)"
    by (simp add: callArg_def callFn_def exC_def)
  note t2 = produce_not_draftable [OF a _ b c2, where l = "Passed VUndefined" and I = exI and n = 0]
  note t0 = produce_not_draftable [OF a _ b c0, where l = "Passed VUndefined" and I = exI and n = 0]
  note t1 = produce_not_draftable [OF a _ b c1, where l = "Passed VUndefined" and I = exI and n = 0]
  show ?thesis using a b c0 c1 c2 t0 t1 t2 by simp
qed




text \<open>
  C9. \<^verbatim>\<open>produce\<close> called with a function and, as second argument, nothing (or anything
  that is not a function) returns, without touching the world, the function
  \<^verbatim>\<open>curriedProduce\<close> that captured the recipe and the second argument as default base.
  Calling it with \<^verbatim>\<open>(base, ...extra)\<close> is a \<^verbatim>\<open>produce\<close> call, with no patch listener, on
  the base (the default when the base is undefined) and a recipe that, given a draft,
  calls the captured recipe with the draft followed by the extra arguments.
\<close>

theorem produce_curried:
  assumes "isFunction f"
    and "\<not> isFunction dflt"
  shows "produce C I n f (Passed_value dflt) l w = Some (Ret (CurriedProduce f dflt), w)
         \<and> (\<exists>g. curriedProduce C I n f dflt b xs w'
                   = produce C I n (if b = VUndefined then dflt else b) (Closure g) (Passed VUndefined) w'
                \<and> (\<forall>d w''. callArg C (Closure g) [d] w'' = callFn C f (d # xs) w''))"
proof -
  have 1: "produce C I n f (Passed_value dflt) l w = Some (Ret (CurriedProduce f dflt), w)"
    using assms by (simp add: produce_def argIsFunction_def)
  let ?g = "\<lambda>ds. callFn C f ((case ds of [] \<Rightarrow> VUndefined | d # r \<Rightarrow> d) # xs)"
  have 2: "curriedProduce C I n f dflt b xs w'
             = produce C I n (if b = VUndefined then dflt else b) (Closure ?g) (Passed VUndefined) w'"
    by (simp add: curriedProduce_def)
  have 3: "callArg C (Closure ?g) [d] w'' = callFn C f (d # xs) w''" for d w''
    by (simp add: callArg_def)
  show ?thesis using 1 2 3 by blast
qed

theorem produce_curried_witness:
  "isFunction (VFun 3) \<and> \<not> isFunction VUndefined
   \<and> produce exC exI 0 (VFun 3) (Passed_value VUndefined) (Passed VUndefined) exP
       = Some (Ret (CurriedProduce (VFun 3) VUndefined), exP)
   \<and> (\<exists>g. curriedProduce exC exI 0 (VFun 3) VUndefined (VNum 1) [VNum 9] exP
             = produce exC exI 0 (VNum 1) (Closure g) (Passed VUndefined) exP
          \<and> callArg exC (Closure g) [VNum 1] exP = (Ret (VNum 9), exP))"
proof -
  have a: "isFunction (VFun 3)" by (simp add: isFunction_def)
  have b: "\<not> isFunction VUndefined" by (simp add: isFunction_def)
  have c: "callFn exC (VFun 3) [VNum 1, VNum 9] exP = (Ret (VNum 9), exP)"
    by (simp add: callFn_def exC_def)
  note t = produce_curried [OF a b, where C = exC and I = exI and n = 0 and l = "Passed VUndefined"
      and w = exP and b = "VNum 1" and xs = "[VNum 9]" and w' = exP]
  from t obtain g where g: "curriedProduce exC exI 0 (VFun 3) VUndefined (VNum 1) [VNum 9] exP
             = produce exC exI 0 (if VNum 1 = VUndefined then VUndefined else VNum 1) (Closure g) (Passed VUndefined) exP"
    and h: "\<forall>d w''. callArg exC (Closure g) [d] w'' = callFn exC (VFun 3) (d # [VNum 9]) w''"
    by blast
  have "callArg exC (Closure g) [VNum 1] exP = (Ret (VNum 9), exP)" using h c by simp
  then show ?thesis using a b t g by auto
qed

text \<open>
  C10. A call \<^verbatim>\<open>produceWithPatches(arg1, arg2, arg3)\<close> whose first argument is not a
  function (the non-curried form) throws when the third argument is truthy, with the
  world untouched: \<^verbatim>\<open>produce\<close> is not called. Otherwise it calls \<^verbatim>\<open>produce\<close> with a
  listener that stores the patches and inverse patches it is given in two fresh
  variables, and returns, when \<^verbatim>\<open>produce\<close> returns, its result with the contents of the
  two variables; when \<^verbatim>\<open>produce\<close> throws, so does it.
\<close>

theorem produceWithPatches_non_curried:
  assumes "\<not> isFunction arg1"
  shows "(truthy arg3 \<longrightarrow> produceWithPatches C I n arg1 arg2 arg3 w = Some (Threw PatchListenerNotAllowed, w))
         \<and> (\<not> truthy arg3 \<longrightarrow>
              produceWithPatches C I n arg1 arg2 arg3 w =
                (case produce C I n arg1 arg2 (Capture (next_cell w))
                        (w\<lparr>cells := (cells w)(next_cell w := (None, None)), next_cell := Suc (next_cell w)\<rparr>) of
                   None \<Rightarrow> None
                 | Some (Threw e, w2) \<Rightarrow> Some (Threw e, w2)
                 | Some (Ret nextState, w2) \<Rightarrow>
                     Some (Ret (WithPatches nextState (fst (cells w2 (next_cell w))) (snd (cells w2 (next_cell w)))), w2)))"
  using assms by (simp add: produceWithPatches_def Let_def)

theorem produceWithPatches_non_curried_witness:
  "\<not> isFunction (VRef 0) \<and> truthy (VFun 5) \<and> \<not> truthy VUndefined
   \<and> produceWithPatches exC exI 3 (VRef 0) (Passed_value (VFun 1)) (VFun 5) exP
       = Some (Threw PatchListenerNotAllowed, exP)
   \<and> map_option fst (produceWithPatches exC exI 3 (VRef 0) (Passed_value (VFun 1)) VUndefined exP)
       = Some (Ret (WithPatches (Produced (VRef 0)) (Some []) (Some [])))"
proof -
  have a: "\<not> isFunction (VRef 0)" by (simp add: isFunction_def)
  have b: "truthy (VFun 5)" by (simp add: truthy_def)
  have c: "\<not> truthy VUndefined" by (simp add: truthy_def)
  note t1 = produceWithPatches_non_curried [OF a, where ?arg3.0 = "VFun 5" and C = exC and I = exI and n = 3
      and ?arg2.0 = "Passed_value (VFun 1)" and w = exP]
  note t2 = produceWithPatches_non_curried [OF a, where ?arg3.0 = VUndefined and C = exC and I = exI and n = 3
      and ?arg2.0 = "Passed_value (VFun 1)" and w = exP]
  have d: "map_option fst
             (case produce exC exI 3 (VRef 0) (Passed_value (VFun 1)) (Capture (next_cell exP))
                     (exP\<lparr>cells := (cells exP)(next_cell exP := (None, None)), next_cell := Suc (next_cell exP)\<rparr>) of
                None \<Rightarrow> None
              | Some (Threw e, w2) \<Rightarrow> Some (Threw e, w2)
              | Some (Ret nextState, w2) \<Rightarrow>
                  Some (Ret (WithPatches nextState (fst (cells w2 (next_cell exP))) (snd (cells w2 (next_cell exP)))), w2))
           = Some (Ret (WithPatches (Produced (VRef 0)) (Some []) (Some [])))"
    by code_simp
  show ?thesis using a b c t1 t2 d by simp
qed

end
